theory Spec2Isabelle
  imports Main
begin

section \<open>Errors and formatted messages\<close>

text \<open>
  Go's \<^verbatim>\<open>fmt.Errorf(format, args...)\<close> is kept structurally: the format string as written
  in the source and the list of its arguments, \<open>Q\<close> for an argument printed with
  \<^verbatim>\<open>%q\<close>, \<open>S\<close> for \<^verbatim>\<open>%s\<close> and \<open>W\<close> for the error wrapped with \<^verbatim>\<open>%w\<close>. An error
  that comes from outside the repository (the operating system, the context package,
  bufio) is \<open>External\<close> with its message.
\<close>

datatype error = External string | Errorf string "fmt_arg list"
  and fmt_arg = Q string | S string | W error

text \<open>\<^verbatim>\<open>errors.Unwrap\<close>: the first \<^verbatim>\<open>%w\<close> argument, if any.\<close>

fun first_wrapped :: "fmt_arg list \<Rightarrow> error option" where
  "first_wrapped [] = None"
| "first_wrapped (W e # as) = Some e"
| "first_wrapped (a # as) = first_wrapped as"

fun Unwrap :: "error \<Rightarrow> error option" where
  "Unwrap (External m) = None"
| "Unwrap (Errorf f as) = first_wrapped as"

section \<open>The executor interface\<close>

text \<open>
  \<^verbatim>\<open>Executor.Run(ctx, command, streamToLog, args...)\<close>. The runners of kox, helmx and
  golang receive their executor by injection and always pass \<^verbatim>\<open>context.Background()\<close>,
  so an invocation is the triple of command, flag and argument list. An executor is any
  function from the invocations made so far and the present one to the error it returns
  (\<open>None\<close> is Go's \<^verbatim>\<open>nil\<close>); every runner returns the list of invocations it made together
  with its own result. The \<^verbatim>\<open>slog.Info\<close> progress messages of the runners only write to
  the logging sink and are left out.
\<close>

type_synonym invocation = "string \<times> bool \<times> string list"

type_synonym executor = "invocation list \<Rightarrow> invocation \<Rightarrow> error option"

type_synonym outcome = "invocation list \<times> error option"

text \<open>\<^verbatim>\<open>for _, v := range vs { args = append(args, flag, v) }\<close>\<close>

fun flag_each :: "string \<Rightarrow> string list \<Rightarrow> string list" where
  "flag_each flag [] = []"
| "flag_each flag (v # vs) = flag # v # flag_each flag vs"

text \<open>\<^verbatim>\<open>if b { args = append(args, flag) }\<close> and \<^verbatim>\<open>if v != "" { args = append(args, flag, v) }\<close>\<close>

definition flag_if :: "bool \<Rightarrow> string \<Rightarrow> string list" where
  "flag_if b flag = (if b then [flag] else [])"

definition flag_nonempty :: "string \<Rightarrow> string \<Rightarrow> string list" where
  "flag_nonempty flag v = (if v \<noteq> [] then [flag, v] else [])"

text \<open>
  \<^verbatim>\<open>if err := executor.Run(context.Background(), command, false, args...); err != nil
  { return err }; return nil\<close>
\<close>

definition run_once :: "executor \<Rightarrow> string \<Rightarrow> string list \<Rightarrow> outcome" where
  "run_once ex command args = ([(command, False, args)], ex [] (command, False, args))"

section \<open>kox\<close>

record BuildOptions =
  ImportPath :: string
  Tags :: "string list"
  Platform :: "string list"
  BaseImage :: string
  Bare :: bool
  Local :: bool
  Push :: bool
  PreserveImportPaths :: bool

definition Build_args :: "BuildOptions \<Rightarrow> string list" where
  "Build_args opts =
     [''build'', ImportPath opts]
     @ flag_each ''--tags'' (Tags opts)
     @ flag_each ''--platform'' (Platform opts)
     @ flag_nonempty ''--base-import-paths'' (BaseImage opts)
     @ flag_if (Bare opts) ''--bare''
     @ flag_if (Local opts) ''--local''
     @ flag_if (Push opts) ''--push''
     @ flag_if (PreserveImportPaths opts) ''--preserve-import-paths''"

definition Build :: "executor \<Rightarrow> BuildOptions \<Rightarrow> outcome" where
  "Build ex opts =
     (if ImportPath opts = [] then ([], Some (Errorf ''import path is required'' []))
      else run_once ex ''ko'' (Build_args opts))"

record ApplyOptions =
  Filenames :: "string list"
  Recursive :: bool
  Selector :: string
  ABaseImage :: string
  APlatform :: "string list"
  ALocal :: bool
  ABare :: bool
  APreserveImportPaths :: bool

definition Apply_args :: "ApplyOptions \<Rightarrow> string list" where
  "Apply_args opts =
     [''apply'']
     @ flag_each ''-f'' (Filenames opts)
     @ flag_if (Recursive opts) ''--recursive''
     @ flag_nonempty ''--selector'' (Selector opts)
     @ flag_nonempty ''--base-import-paths'' (ABaseImage opts)
     @ flag_each ''--platform'' (APlatform opts)
     @ flag_if (ALocal opts) ''--local''
     @ flag_if (ABare opts) ''--bare''
     @ flag_if (APreserveImportPaths opts) ''--preserve-import-paths''"

definition Apply :: "executor \<Rightarrow> ApplyOptions \<Rightarrow> outcome" where
  "Apply ex opts =
     (if length (Filenames opts) = 0
      then ([], Some (Errorf ''at least one filename is required'' []))
      else run_once ex ''ko'' (Apply_args opts))"

record DeleteOptions =
  DFilenames :: "string list"
  DRecursive :: bool
  DSelector :: string

definition Delete :: "executor \<Rightarrow> DeleteOptions \<Rightarrow> outcome" where
  "Delete ex opts =
     (if length (DFilenames opts) = 0
      then ([], Some (Errorf ''at least one filename is required'' []))
      else run_once ex ''ko''
             ([''delete'']
              @ flag_each ''-f'' (DFilenames opts)
              @ flag_if (DRecursive opts) ''--recursive''
              @ flag_nonempty ''--selector'' (DSelector opts)))"

definition Resolve :: "executor \<Rightarrow> string list \<Rightarrow> string list \<Rightarrow> outcome" where
  "Resolve ex importPaths args =
     (if length importPaths = 0
      then ([], Some (Errorf ''at least one import path is required'' []))
      else run_once ex ''ko'' ([''resolve''] @ args @ importPaths))"

definition Publish :: "executor \<Rightarrow> string \<Rightarrow> string list \<Rightarrow> outcome" where
  "Publish ex importPath args =
     (if importPath = [] then ([], Some (Errorf ''import path is required'' []))
      else run_once ex ''ko'' ([''publish'', importPath] @ args))"

section \<open>helmx\<close>

record InstallOptions =
  ReleaseName :: string
  Chart :: string
  Namespace :: string
  Values :: "string list"
  Set :: "string list"
  CreateNamespace :: bool
  Wait :: bool
  Timeout :: string

definition Install :: "executor \<Rightarrow> InstallOptions \<Rightarrow> outcome" where
  "Install ex opts =
     (if ReleaseName opts = [] then ([], Some (Errorf ''release name is required'' []))
      else if Chart opts = [] then ([], Some (Errorf ''chart is required'' []))
      else run_once ex ''helm''
             ([''install'', ReleaseName opts, Chart opts]
              @ flag_nonempty ''--namespace'' (Namespace opts)
              @ flag_if (CreateNamespace opts) ''--create-namespace''
              @ flag_each ''--values'' (Values opts)
              @ flag_each ''--set'' (Set opts)
              @ flag_if (Wait opts) ''--wait''
              @ flag_nonempty ''--timeout'' (Timeout opts)))"

record UpgradeOptions =
  UReleaseName :: string
  UChart :: string
  UNamespace :: string
  UValues :: "string list"
  USet :: "string list"
  UInstall :: bool
  UWait :: bool
  UTimeout :: string

definition Upgrade :: "executor \<Rightarrow> UpgradeOptions \<Rightarrow> outcome" where
  "Upgrade ex opts =
     (if UReleaseName opts = [] then ([], Some (Errorf ''release name is required'' []))
      else if UChart opts = [] then ([], Some (Errorf ''chart is required'' []))
      else run_once ex ''helm''
             ([''upgrade'', UReleaseName opts, UChart opts]
              @ flag_nonempty ''--namespace'' (UNamespace opts)
              @ flag_if (UInstall opts) ''--install''
              @ flag_each ''--values'' (UValues opts)
              @ flag_each ''--set'' (USet opts)
              @ flag_if (UWait opts) ''--wait''
              @ flag_nonempty ''--timeout'' (UTimeout opts)))"

definition Uninstall :: "executor \<Rightarrow> string \<Rightarrow> string \<Rightarrow> string list \<Rightarrow> outcome" where
  "Uninstall ex releaseName namespace args =
     (if releaseName = [] then ([], Some (Errorf ''release name is required'' []))
      else run_once ex ''helm''
             ([''uninstall'', releaseName] @ flag_nonempty ''--namespace'' namespace @ args))"

definition List :: "executor \<Rightarrow> string \<Rightarrow> string list \<Rightarrow> outcome" where
  "List ex namespace args =
     run_once ex ''helm''
       ([''list'']
        @ (if namespace \<noteq> [] then [''--namespace'', namespace] else [''--all-namespaces''])
        @ args)"

definition Status :: "executor \<Rightarrow> string \<Rightarrow> string \<Rightarrow> string list \<Rightarrow> outcome" where
  "Status ex releaseName namespace args =
     (if releaseName = [] then ([], Some (Errorf ''release name is required'' []))
      else run_once ex ''helm''
             ([''status'', releaseName] @ flag_nonempty ''--namespace'' namespace @ args))"

definition Template :: "executor \<Rightarrow> string \<Rightarrow> string \<Rightarrow> string list \<Rightarrow> outcome" where
  "Template ex releaseName chart args =
     (if releaseName = [] then ([], Some (Errorf ''release name is required'' []))
      else if chart = [] then ([], Some (Errorf ''chart is required'' []))
      else run_once ex ''helm'' ([''template'', releaseName, chart] @ args))"

definition Lint :: "executor \<Rightarrow> string \<Rightarrow> string list \<Rightarrow> outcome" where
  "Lint ex chart args =
     (if chart = [] then ([], Some (Errorf ''chart path is required'' []))
      else run_once ex ''helm'' ([''lint'', chart] @ args))"

definition Package :: "executor \<Rightarrow> string \<Rightarrow> string list \<Rightarrow> outcome" where
  "Package ex chart args =
     (if chart = [] then ([], Some (Errorf ''chart path is required'' []))
      else run_once ex ''helm'' ([''package'', chart] @ args))"

definition RepoAdd :: "executor \<Rightarrow> string \<Rightarrow> string \<Rightarrow> string list \<Rightarrow> outcome" where
  "RepoAdd ex name url args =
     (if name = [] then ([], Some (Errorf ''repository name is required'' []))
      else if url = [] then ([], Some (Errorf ''repository URL is required'' []))
      else run_once ex ''helm'' ([''repo'', ''add'', name, url] @ args))"

definition RepoUpdate :: "executor \<Rightarrow> string list \<Rightarrow> outcome" where
  "RepoUpdate ex args = run_once ex ''helm'' ([''repo'', ''update''] @ args)"

section \<open>golang\<close>

text \<open>\<^verbatim>\<open>strings.Join(elems, sep)\<close>\<close>

fun Join :: "string list \<Rightarrow> string \<Rightarrow> string" where
  "Join [] sep = []"
| "Join [x] sep = x"
| "Join (x # y # ys) sep = x @ sep @ Join (y # ys) sep"

text \<open>
  The loop of \<^verbatim>\<open>RunInstall\<close> over the packages that are left, after the invocations
  \<open>done\<close>: the first failing invocation ends the loop with the wrapped error.
\<close>

fun install_loop :: "executor \<Rightarrow> invocation list \<Rightarrow> string list \<Rightarrow> string list \<Rightarrow> outcome" where
  "install_loop ex done [] args = (done, None)"
| "install_loop ex done (pkg # pkgs) args =
     (let cmdArgs = [''install'', pkg] @ args in
      case ex done (''go'', False, cmdArgs) of
        Some err \<Rightarrow> (done @ [(''go'', False, cmdArgs)],
                     Some (Errorf ''failed to install %s: %w'' [S pkg, W err]))
      | None \<Rightarrow> install_loop ex (done @ [(''go'', False, cmdArgs)]) pkgs args)"

definition RunInstall :: "executor \<Rightarrow> string list \<Rightarrow> string list \<Rightarrow> outcome" where
  "RunInstall ex pkgs args =
     (if length pkgs = 0
      then ([], Some (Errorf ''no package specified for installation'' []))
      else install_loop ex [] pkgs args)"

text \<open>The invocation that \<^verbatim>\<open>RunInstall\<close> makes for one package.\<close>

definition install_inv :: "string list \<Rightarrow> string \<Rightarrow> invocation" where
  "install_inv args pkg = (''go'', False, [''install'', pkg] @ args)"

text \<open>The loop of \<^verbatim>\<open>RunModTasks\<close> over the argument lists that are left.\<close>

fun mod_loop :: "executor \<Rightarrow> invocation list \<Rightarrow> string list list \<Rightarrow> outcome" where
  "mod_loop ex done [] = (done, None)"
| "mod_loop ex done (args # rest) =
     (case ex done (''go'', False, args) of
        Some err \<Rightarrow> (done @ [(''go'', False, args)],
                     Some (Errorf ''failed to run 'go %s': %w'' [S (Join args '' ''), W err]))
      | None \<Rightarrow> mod_loop ex (done @ [(''go'', False, args)]) rest)"

definition commands :: "string list list" where
  "commands = [[''mod'', ''tidy''], [''mod'', ''verify'']]"

definition RunModTasks :: "executor \<Rightarrow> outcome" where
  "RunModTasks ex = mod_loop ex [] commands"

record GoBuildOptions =
  Binary :: string
  Version :: string
  OS :: string
  Arch :: string
  Debug :: bool
  Packages :: "string list"
  DestinationDir :: string

text \<open>
  \<^verbatim>\<open>RunBuild\<close> creates the output directory before it builds. \<^verbatim>\<open>filepath.Join\<close> and
  the result of \<^verbatim>\<open>os.MkdirAll\<close> belong to the platform and are parameters.
\<close>

definition RunBuild ::
  "executor \<Rightarrow> (string list \<Rightarrow> string) \<Rightarrow> (string \<Rightarrow> error option) \<Rightarrow> GoBuildOptions \<Rightarrow> outcome" where
  "RunBuild ex filepath_Join MkdirAll opts0 =
     (if Binary opts0 = [] then ([], Some (Errorf ''binary name is required'' []))
      else
        let opts = (if length (Packages opts0) = 0 then opts0\<lparr>Packages := [''.'']\<rparr> else opts0);
            destDir = (if DestinationDir opts = [] then ''dist/binaries'' else DestinationDir opts);
            ldflags = ''-X main.version='' @ Version opts @ (if \<not> Debug opts then '' -s -w'' else []);
            outDir = filepath_Join [destDir, OS opts @ ''_'' @ Arch opts]
        in case MkdirAll outDir of
             Some err \<Rightarrow> ([], Some err)
           | None \<Rightarrow>
               let outPath = filepath_Join [outDir, Binary opts] in
               run_once ex ''env''
                 ([''GOOS='' @ OS opts, ''GOARCH='' @ Arch opts, ''CGO_ENABLED=0'', ''go'', ''build'',
                   ''-ldflags'', ldflags, ''-o'', outPath] @ Packages opts))"

section \<open>execx: the main thread of \<^verbatim>\<open>Exec.Run\<close>\<close>

text \<open>
  A reader (\<^verbatim>\<open>iox.Reader\<close>) is the data it will deliver, in the pieces in which it
  arrives, and the error it reports once the data is exhausted (\<^verbatim>\<open>io.EOF\<close> for a
  pipe whose writer has closed).
\<close>

record reader =
  chunks :: "string list"
  final :: error

definition io_EOF :: error where
  "io_EOF = External ''EOF''"

datatype level = LevelDebug | LevelInfo | LevelWarn | LevelError

datatype terminal = os_Stdout | os_Stderr

text \<open>
  The body of a goroutine started by \<^verbatim>\<open>Run\<close>: \<^verbatim>\<open>streamToSlog(ctx, r, level)\<close>
  or \<^verbatim>\<open>io.Copy(dst, r)\<close>.
\<close>

datatype consumer = StreamToSlog reader level | IoCopy terminal reader

text \<open>
  A command (\<^verbatim>\<open>Commander\<close>) is an interface, so that a test can put a fake in the place of
  \<^verbatim>\<open>exec.Cmd\<close>: it is modelled by what each of the methods \<^verbatim>\<open>Run\<close> calls returns.
  \<^verbatim>\<open>Run\<close> is modelled with the calls it makes on the command and the goroutines it
  starts, in order.
\<close>

record commander =
  stdoutPipe :: "error + reader"
  stderrPipe :: "error + reader"
  start :: "error option"
  wait :: "error option"

datatype cmd_call =
  CommandContext string "string list"
  | SetStdin
  | StdoutPipe
  | StderrPipe
  | Start
  | Go consumer
  | CmdWait

type_synonym creator = "string \<Rightarrow> string list \<Rightarrow> commander"

text \<open>
  Lines 157 to 186 of \<^verbatim>\<open>Run\<close>: from the creation of the command to the two
  \<^verbatim>\<open>go\<close> statements. The result is \<open>Some err\<close> when \<^verbatim>\<open>Run\<close> has returned \<open>err\<close>,
  and \<open>None\<close> when it goes on to wait.
\<close>

definition Run_launch :: "creator \<Rightarrow> string \<Rightarrow> bool \<Rightarrow> string list \<Rightarrow> cmd_call list \<times> error option" where
  "Run_launch cr command streamToLog args =
     (let cmd = cr command args in
      case stdoutPipe cmd of
        Inl err \<Rightarrow>
          ([CommandContext command args, SetStdin, StdoutPipe],
           Some (Errorf ''failed to get stdout pipe: %w'' [W err]))
      | Inr stdout \<Rightarrow>
         (case stderrPipe cmd of
            Inl err \<Rightarrow>
              ([CommandContext command args, SetStdin, StdoutPipe, StderrPipe],
               Some (Errorf ''failed to get stderr pipe: %w'' [W err]))
          | Inr stderr \<Rightarrow>
             (case start cmd of
                Some err \<Rightarrow>
                  ([CommandContext command args, SetStdin, StdoutPipe, StderrPipe, Start],
                   Some (Errorf ''failed to start command %q: %w'' [Q command, W err]))
              | None \<Rightarrow>
                  ([CommandContext command args, SetStdin, StdoutPipe, StderrPipe, Start]
                   @ (if streamToLog
                      then [Go (StreamToSlog stdout LevelInfo), Go (StreamToSlog stderr LevelError)]
                      else [Go (IoCopy os_Stdout stdout), Go (IoCopy os_Stderr stderr)]),
                   None))))"

text \<open>
  Lines 188 to 197: \<^verbatim>\<open>cmd.Wait()\<close> and the classification of its error. \<open>ctxErr\<close> is
  what \<^verbatim>\<open>ctx.Err()\<close> returns when \<^verbatim>\<open>Wait\<close> has returned.
\<close>

definition Run_wait :: "commander \<Rightarrow> error option \<Rightarrow> string \<Rightarrow> cmd_call list \<times> error option" where
  "Run_wait cmd ctxErr command =
     (case wait cmd of
        Some err \<Rightarrow>
          (case ctxErr of
             Some cause \<Rightarrow> ([CmdWait], Some (Errorf ''command %q canceled: %w'' [Q command, W cause]))
           | None \<Rightarrow> ([CmdWait], Some (Errorf ''command %q failed: %w'' [Q command, W err])))
      | None \<Rightarrow> ([CmdWait], None))"

definition Run :: "creator \<Rightarrow> error option \<Rightarrow> string \<Rightarrow> bool \<Rightarrow> string list \<Rightarrow> cmd_call list \<times> error option" where
  "Run cr ctxErr command streamToLog args =
     (case Run_launch cr command streamToLog args of
        (calls, Some err) \<Rightarrow> (calls, Some err)
      | (calls, None) \<Rightarrow>
          (case Run_wait (cr command args) ctxErr command of
             (calls', res) \<Rightarrow> (calls @ calls', res)))"

text \<open>
  The specification's names for the errors of \<^verbatim>\<open>Run\<close>, which the code tells apart by
  their message only.
\<close>

datatype failure = StartFailure | RunFailure | CancelledFailure

fun classify :: "error \<Rightarrow> failure option" where
  "classify (Errorf f as) =
     (if f = ''failed to start command %q: %w'' then Some StartFailure
      else if f = ''command %q failed: %w'' then Some RunFailure
      else if f = ''command %q canceled: %w'' then Some CancelledFailure
      else None)"
| "classify (External m) = None"

fun is_Go :: "cmd_call \<Rightarrow> bool" where
  "is_Go (Go c) = True"
| "is_Go _ = False"

text \<open>The bodies of the goroutines started among a list of calls, in order.\<close>

fun consumers_of :: "cmd_call list \<Rightarrow> consumer list" where
  "consumers_of [] = []"
| "consumers_of (Go c # cs) = c # consumers_of cs"
| "consumers_of (c # cs) = consumers_of cs"

section \<open>Readers and \<^verbatim>\<open>bufio.Scanner\<close>\<close>

text \<open>
  \<^verbatim>\<open>r.Read(p)\<close> with \<open>k = len(p)\<close>: the bytes read and the error, and the reader
  afterwards. A piece that does not fit into \<open>p\<close> is delivered in part.
\<close>

definition Read :: "reader \<Rightarrow> nat \<Rightarrow> (string \<times> error option) \<times> reader" where
  "Read r k =
     (case chunks r of
        [] \<Rightarrow> (([], Some (final r)), r)
      | c # cs \<Rightarrow>
          if length c \<le> k then ((c, None), r\<lparr>chunks := cs\<rparr>)
          else ((take k c, None), r\<lparr>chunks := drop k c # cs\<rparr>))"

text \<open>
  \<^verbatim>\<open>streamToSlog\<close> reads its lines with a \<^verbatim>\<open>bufio.Scanner\<close>, which belongs to Go's
  standard library. The model follows \<^verbatim>\<open>bufio/scan.go\<close> for the split function
  \<^verbatim>\<open>ScanLines\<close>: \<open>s_data\<close> is \<^verbatim>\<open>s.buf[s.start:s.end]\<close>, \<open>s_buf_len\<close> is
  \<^verbatim>\<open>len(s.buf)\<close>, and \<open>s_err\<close> is the sticky error. The fields \<^verbatim>\<open>done\<close> and
  \<^verbatim>\<open>empties\<close> and the checks of \<^verbatim>\<open>s.advance\<close> are left out: \<^verbatim>\<open>ScanLines\<close> never
  returns an error or \<^verbatim>\<open>ErrFinalToken\<close>, never returns a token without advancing, and
  never advances beyond the data.
\<close>

record scanner =
  s_r :: reader
  s_maxTokenSize :: nat
  s_token :: string
  s_buf_len :: nat
  s_start :: nat
  s_data :: string
  s_err :: "error option"

definition MaxScanTokenSize :: nat where
  "MaxScanTokenSize = 64 * 1024"

definition startBufSize :: nat where
  "startBufSize = 4096"

definition maxConsecutiveEmptyReads :: nat where
  "maxConsecutiveEmptyReads = 100"

definition ErrTooLong :: error where
  "ErrTooLong = External ''bufio.Scanner: token too long''"

definition ErrBadReadCount :: error where
  "ErrBadReadCount = External ''bufio.Scanner: Read returned impossible count''"

definition io_ErrNoProgress :: error where
  "io_ErrNoProgress = External ''multiple Read calls return no data or error''"

definition NewScanner :: "reader \<Rightarrow> scanner" where
  "NewScanner r =
     \<lparr>s_r = r, s_maxTokenSize = MaxScanTokenSize, s_token = [], s_buf_len = 0, s_start = 0,
      s_data = [], s_err = None\<rparr>"

text \<open>\<^verbatim>\<open>s.Buffer(buf, max)\<close> with \<open>n = cap(buf)\<close> and \<open>m = max\<close>.\<close>

definition Buffer :: "scanner \<Rightarrow> nat \<Rightarrow> nat \<Rightarrow> scanner" where
  "Buffer s n m = s\<lparr>s_buf_len := n, s_maxTokenSize := m\<rparr>"

definition setErr :: "error \<Rightarrow> scanner \<Rightarrow> scanner" where
  "setErr e s = (if s_err s = None \<or> s_err s = Some io_EOF then s\<lparr>s_err := Some e\<rparr> else s)"

definition Err :: "scanner \<Rightarrow> error option" where
  "Err s = (if s_err s = Some io_EOF then None else s_err s)"

definition Text :: "scanner \<Rightarrow> string" where
  "Text s = s_token s"

definition newline :: char where
  "newline = CHR 0x0A"

definition carriage_return :: char where
  "carriage_return = CHR 0x0D"

text \<open>\<^verbatim>\<open>bytes.IndexByte\<close>, with \<open>None\<close> for \<open>-1\<close>.\<close>

fun IndexByte :: "string \<Rightarrow> char \<Rightarrow> nat option" where
  "IndexByte [] c = None"
| "IndexByte (x # xs) c = (if x = c then Some 0 else map_option Suc (IndexByte xs c))"

definition dropCR :: "string \<Rightarrow> string" where
  "dropCR data = (if length data > 0 \<and> last data = carriage_return then butlast data else data)"

text \<open>\<^verbatim>\<open>ScanLines(data, atEOF)\<close>: the advance and the token (\<open>None\<close> for nil).\<close>

definition ScanLines :: "string \<Rightarrow> bool \<Rightarrow> nat \<times> string option" where
  "ScanLines data atEOF =
     (if atEOF \<and> length data = 0 then (0, None)
      else case IndexByte data newline of
             Some i \<Rightarrow> (i + 1, Some (dropCR (take i data)))
           | None \<Rightarrow> if atEOF then (length data, Some (dropCR data)) else (0, None))"

text \<open>The inner loop of \<^verbatim>\<open>Scan\<close>, which reads until data or an error arrives.\<close>

function read_loop :: "nat \<Rightarrow> scanner \<Rightarrow> scanner" where
  "read_loop loop s =
     (let free = s_buf_len s - (s_start s + length (s_data s));
          res = Read (s_r s) free;
          bs = fst (fst res);
          s1 = s\<lparr>s_r := snd res\<rparr>
      in if free < length bs then setErr ErrBadReadCount s1
         else
           let s2 = s1\<lparr>s_data := s_data s1 @ bs\<rparr> in
           case snd (fst res) of
             Some err \<Rightarrow> setErr err s2
           | None \<Rightarrow>
               if length bs > 0 then s2
               else if loop + 1 > maxConsecutiveEmptyReads then setErr io_ErrNoProgress s2
               else read_loop (loop + 1) s2)"
  by pat_completeness auto
termination
  by (relation "measure (\<lambda>(loop, s). Suc maxConsecutiveEmptyReads - loop)") auto

text \<open>
  The data is moved to the front of the buffer when the buffer is full behind it or more
  than half of the buffer lies before it.
\<close>

definition shift :: "scanner \<Rightarrow> scanner" where
  "shift s =
     (if s_start s > 0 \<and>
         (s_start s + length (s_data s) = s_buf_len s \<or> s_start s > s_buf_len s div 2)
      then s\<lparr>s_start := 0\<rparr> else s)"

text \<open>A full buffer is replaced by one of twice the size, up to the maximal token size.\<close>

definition grow :: "scanner \<Rightarrow> scanner" where
  "grow s =
     (let newSize = s_buf_len s * 2;
          newSize = (if newSize = 0 then startBufSize else newSize);
          newSize = min newSize (s_maxTokenSize s)
      in s\<lparr>s_buf_len := newSize, s_start := 0\<rparr>)"

text \<open>What is left to scan: the bytes in the buffer and the bytes the reader still holds.\<close>

definition remaining :: "reader \<Rightarrow> nat" where
  "remaining r = sum_list (map length (chunks r))"

definition pending :: "scanner \<Rightarrow> string" where
  "pending s = s_data s @ concat (chunks (s_r s))"

section \<open>\<^verbatim>\<open>Scanner.Scan\<close>\<close>

text \<open>Every call of the inner loop either sets the error or takes bytes from the reader.\<close>

declare read_loop.simps [simp del]

lemma remaining_Read: "remaining (snd (Read r k)) \<le> remaining r"
  by (auto simp: Read_def remaining_def split: list.splits)

lemma remaining_Read_bytes:
  "remaining (snd (Read r k)) + length (fst (fst (Read r k))) = remaining r"
  by (auto simp: Read_def remaining_def split: list.splits)

lemma read_loop_progress:
  "s_err s = None \<Longrightarrow>
   (s_err (read_loop n s) \<noteq> None \<and> remaining (s_r (read_loop n s)) \<le> remaining (s_r s))
   \<or> remaining (s_r (read_loop n s)) < remaining (s_r s)"
proof (induction n s rule: read_loop.induct)
  case (1 loop s)
  let ?free = "s_buf_len s - (s_start s + length (s_data s))"
  let ?res = "Read (s_r s) ?free"
  let ?bs = "fst (fst ?res)"
  let ?s2 = "s\<lparr>s_r := snd ?res, s_data := s_data s @ ?bs\<rparr>"
  have le: "remaining (snd ?res) \<le> remaining (s_r s)" by (rule remaining_Read)
  have eq: "remaining (snd ?res) + length ?bs = remaining (s_r s)" by (rule remaining_Read_bytes)
  show ?case
  proof (cases "?free < length ?bs")
    case True
    then have r: "read_loop loop s = setErr ErrBadReadCount (s\<lparr>s_r := snd ?res\<rparr>)"
      by (subst read_loop.simps) (simp add: Let_def)
    show ?thesis using le "1.prems" unfolding r by (simp add: setErr_def)
  next
    case nb: False
    show ?thesis
    proof (cases "snd (fst ?res)")
      case (Some e)
      then have r: "read_loop loop s = setErr e ?s2"
        using nb by (subst read_loop.simps) (simp add: Let_def)
      show ?thesis using le "1.prems" unfolding r by (simp add: setErr_def)
    next
      case None
      show ?thesis
      proof (cases "length ?bs > 0")
        case True
        then have r: "read_loop loop s = ?s2"
          using nb None by (subst read_loop.simps) (simp add: Let_def)
        have "remaining (snd ?res) < remaining (s_r s)" using eq True by linarith
        then show ?thesis unfolding r by simp
      next
        case e: False
        show ?thesis
        proof (cases "loop + 1 > maxConsecutiveEmptyReads")
          case True
          then have r: "read_loop loop s = setErr io_ErrNoProgress ?s2"
            using nb None e by (subst read_loop.simps) (simp add: Let_def)
          show ?thesis using le "1.prems" unfolding r by (simp add: setErr_def)
        next
          case False
          have ih: "(s_err (read_loop (loop + 1) ?s2) \<noteq> None \<and>
                remaining (s_r (read_loop (loop + 1) ?s2)) \<le> remaining (s_r ?s2))
              \<or> remaining (s_r (read_loop (loop + 1) ?s2)) < remaining (s_r ?s2)"
            using "1.IH"[OF refl refl refl refl _ refl None] nb e False "1.prems" by simp
          have r: "read_loop loop s = read_loop (loop + 1) ?s2"
            using nb None e False by (subst read_loop.simps) (simp add: Let_def)
          show ?thesis using ih le unfolding r by auto
        qed
      qed
    qed
  qed
qed

text \<open>The largest \<^verbatim>\<open>int\<close>, on a 64-bit platform.\<close>

definition maxInt :: nat where
  "maxInt = 2 ^ 63 - 1"

text \<open>
  The first part of the loop of \<^verbatim>\<open>Scan\<close>: when the buffer holds data, or the reader has
  reported an error, the split function is tried on the buffer.
\<close>

definition split_step :: "scanner \<Rightarrow> bool \<times> scanner" where
  "split_step s =
     (if length (s_data s) > 0 \<or> s_err s \<noteq> None
      then case ScanLines (s_data s) (s_err s \<noteq> None) of
             (advance, token) \<Rightarrow>
               (token \<noteq> None,
                s\<lparr>s_start := s_start s + advance, s_data := drop advance (s_data s),
                  s_token := (case token of Some t \<Rightarrow> t | None \<Rightarrow> [])\<rparr>)
      else (False, s))"

text \<open>
  \<^verbatim>\<open>Scan\<close>: return the token the split function finds; if there is none and the reader
  has reported an error, stop; otherwise make room, fail with \<^verbatim>\<open>ErrTooLong\<close> when the
  buffer is full at its maximal size, and read more.
\<close>

function Scan :: "scanner \<Rightarrow> bool \<times> scanner" where
  "Scan s =
     (case split_step s of
        (True, s') \<Rightarrow> (True, s')
      | (False, s') \<Rightarrow>
          if s_err s' \<noteq> None then (False, s'\<lparr>s_start := 0, s_data := []\<rparr>)
          else
            let s1 = shift s' in
            if s_start s1 + length (s_data s1) = s_buf_len s1
            then (if s_buf_len s1 \<ge> s_maxTokenSize s1 \<or> s_buf_len s1 > maxInt div 2
                  then (False, setErr ErrTooLong s1)
                  else Scan (read_loop 0 (grow s1)))
            else Scan (read_loop 0 s1))"
  by pat_completeness auto

lemma split_step_reader: "s_r (snd (split_step s)) = s_r s" "s_err (snd (split_step s)) = s_err s"
  by (auto simp: split_step_def split: prod.splits)

lemma shift_grow_reader:
  "s_r (shift s) = s_r s" "s_err (shift s) = s_err s" "s_r (grow s) = s_r s" "s_err (grow s) = s_err s"
  by (auto simp: shift_def grow_def Let_def)

lemma Scan_decreases:
  assumes "(x, y) = split_step s" and "s_err y = None" and "s1 = shift y \<or> s1 = grow (shift y)"
  shows "(read_loop 0 s1, s) \<in> measure (\<lambda>s. (if s_err s = None then 1 else 0) + 2 * remaining (s_r s))"
proof -
  have y: "y = snd (split_step s)" using assms(1) by (metis snd_conv)
  have e: "s_err s1 = None" "s_r s1 = s_r s" "s_err s = None"
    using assms(2,3) y by (auto simp add: shift_grow_reader split_step_reader)
  from read_loop_progress[OF e(1), of 0] show ?thesis using e by auto
qed

termination Scan
proof (relation "measure (\<lambda>s. (if s_err s = None then 1 else 0) + 2 * remaining (s_r s))")
qed (rule wf_measure, (rule Scan_decreases, assumption, simp, simp)+)

declare Scan.simps [simp del]

lemma Read_length: "length (fst (fst (Read r k))) \<le> k"
  by (auto simp: Read_def split: list.splits)

lemma Read_concat: "fst (fst (Read r k)) @ concat (chunks (snd (Read r k))) = concat (chunks r)"
  by (auto simp: Read_def split: list.splits)

lemma pending_setErr: "pending (setErr e s) = pending s"
  by (simp add: setErr_def pending_def)

lemma read_loop_pending: "pending (read_loop n s) = pending s"
proof (induction n s rule: read_loop.induct)
  case (1 loop s)
  let ?free = "s_buf_len s - (s_start s + length (s_data s))"
  let ?res = "Read (s_r s) ?free"
  let ?bs = "fst (fst ?res)"
  let ?s2 = "s\<lparr>s_r := snd ?res, s_data := s_data s @ ?bs\<rparr>"
  have nb: "\<not> ?free < length ?bs" using Read_length[of "s_r s" ?free] by simp
  have p2: "pending ?s2 = pending s"
    using Read_concat[of "s_r s" ?free] by (simp add: pending_def)
  show ?case
  proof (cases "snd (fst ?res)")
    case (Some e)
    then have "read_loop loop s = setErr e ?s2"
      using nb by (subst read_loop.simps) (simp add: Let_def)
    then show ?thesis using p2 by (simp add: pending_setErr)
  next
    case None
    show ?thesis
    proof (cases "length ?bs > 0")
      case True
      then have "read_loop loop s = ?s2"
        using nb None by (subst read_loop.simps) (simp add: Let_def)
      then show ?thesis using p2 by simp
    next
      case e: False
      show ?thesis
      proof (cases "loop + 1 > maxConsecutiveEmptyReads")
        case True
        then have "read_loop loop s = setErr io_ErrNoProgress ?s2"
          using nb None e by (subst read_loop.simps) (simp add: Let_def)
        then show ?thesis using p2 by (simp add: pending_setErr)
      next
        case False
        have ih: "pending (read_loop (loop + 1) ?s2) = pending ?s2"
          using "1.IH"[OF refl refl refl refl _ refl None] nb e False by simp
        have r: "read_loop loop s = read_loop (loop + 1) ?s2"
          using nb None e False by (subst read_loop.simps) (simp add: Let_def)
        show ?thesis using ih p2 unfolding r by simp
      qed
    qed
  qed
qed

lemma IndexByte_less: "IndexByte xs c = Some i \<Longrightarrow> i < length xs"
  by (induction xs arbitrary: i) (auto split: if_splits)

lemma split_step_False:
  "split_step s = (False, s') \<Longrightarrow> s' = s \<or> s' = s\<lparr>s_token := []\<rparr>"
  by (auto simp: split_step_def ScanLines_def split: if_splits option.splits)

lemma split_step_True:
  "split_step s = (True, s') \<Longrightarrow> length (s_data s') < length (s_data s) \<and> s_r s' = s_r s"
  by (auto simp: split_step_def ScanLines_def dest: IndexByte_less split: if_splits option.splits)

lemma pending_shift_grow: "pending (shift s) = pending s" "pending (grow s) = pending s"
  by (auto simp: pending_def shift_def grow_def Let_def)

lemma Scan_consumes: "Scan s = (True, s') \<Longrightarrow> length (pending s') < length (pending s)"
proof (induction s arbitrary: s' rule: Scan.induct)
  case (1 s)
  obtain ok t where sp: "split_step s = (ok, t)" by (cases "split_step s")
  show ?case
  proof (cases ok)
    case True
    with sp "1.prems" have "s' = t" by (subst (asm) Scan.simps) simp
    with split_step_True[of s t] sp True show ?thesis by (auto simp: pending_def)
  next
    case False
    with split_step_False[of s t] sp have pt: "pending t = pending s" by (auto simp: pending_def)
    have ne: "s_err t = None"
      using "1.prems" sp False by (subst (asm) Scan.simps) (auto split: if_splits)
    let ?s1 = "shift t"
    show ?thesis
    proof (cases "s_start ?s1 + length (s_data ?s1) = s_buf_len ?s1")
      case full: True
      have ng: "\<not> (s_buf_len ?s1 \<ge> s_maxTokenSize ?s1 \<or> s_buf_len ?s1 > maxInt div 2)"
        using "1.prems" sp False ne full by (subst (asm) Scan.simps) (auto simp: Let_def split: if_splits)
      have r: "Scan s = Scan (read_loop 0 (grow ?s1))"
        using sp False ne full ng by (subst Scan.simps) (simp add: Let_def)
      have "length (pending s') < length (pending (read_loop 0 (grow ?s1)))"
        using "1.IH"(1)[OF sp[symmetric] _ _ refl full ng] False ne "1.prems" r by simp
      then show ?thesis by (simp add: read_loop_pending pending_shift_grow pt)
    next
      case nf: False
      have r: "Scan s = Scan (read_loop 0 ?s1)"
        using sp False ne nf by (subst Scan.simps) (simp add: Let_def)
      have "length (pending s') < length (pending (read_loop 0 ?s1))"
        using "1.IH"(2)[OF sp[symmetric] _ _ refl nf] False ne "1.prems" r by simp
      then show ?thesis by (simp add: read_loop_pending pending_shift_grow pt)
    qed
  qed
qed

section \<open>The stream consumers\<close>

text \<open>A record of the logging sink: \<^verbatim>\<open>slog.Log\<close>, \<^verbatim>\<open>slog.WarnContext\<close>, \<^verbatim>\<open>slog.ErrorContext\<close>.\<close>

record log_record =
  r_level :: level
  r_msg :: string
  r_attrs :: "(string \<times> error) list"

text \<open>
  One turn of the loop of \<^verbatim>\<open>streamToSlog\<close>, with \<open>ctxErr\<close> what \<^verbatim>\<open>ctx.Err()\<close> is at the
  \<^verbatim>\<open>select\<close> (\<^verbatim>\<open>ctx.Done()\<close> is closed exactly when it is not nil): the records logged,
  whether the loop goes on, and the scanner afterwards. When \<^verbatim>\<open>Scan\<close> returns false the
  loop ends and \<^verbatim>\<open>scanner.Err()\<close> is logged if it is not nil.
\<close>

definition slog_iteration :: "error option \<Rightarrow> level \<Rightarrow> scanner \<Rightarrow> log_record list \<times> bool \<times> scanner" where
  "slog_iteration ctxErr lv sc =
     (case Scan sc of
        (True, sc') \<Rightarrow>
          (case ctxErr of
             Some e \<Rightarrow>
               ([\<lparr>r_level = LevelWarn, r_msg = ''stream canceled'', r_attrs = [(''reason'', e)]\<rparr>],
                False, sc')
           | None \<Rightarrow> ([\<lparr>r_level = lv, r_msg = Text sc', r_attrs = []\<rparr>], True, sc'))
      | (False, sc') \<Rightarrow>
          (case Err sc' of
             Some err \<Rightarrow>
               ([\<lparr>r_level = LevelError, r_msg = ''failed to read stream'', r_attrs = [(''err'', err)]\<rparr>],
                False, sc')
           | None \<Rightarrow> ([], False, sc')))"

text \<open>
  The whole loop, for a context whose \<^verbatim>\<open>Err()\<close> is \<open>ctx n\<close> at the \<open>n\<close>-th
  \<^verbatim>\<open>select\<close>.
\<close>

function slog_loop :: "(nat \<Rightarrow> error option) \<Rightarrow> nat \<Rightarrow> level \<Rightarrow> scanner \<Rightarrow> log_record list \<times> scanner" where
  "slog_loop ctx n lv sc =
     (case slog_iteration (ctx n) lv sc of
        (logs, True, sc') \<Rightarrow> (case slog_loop ctx (n + 1) lv sc' of (logs', sc'') \<Rightarrow> (logs @ logs', sc''))
      | (logs, False, sc') \<Rightarrow> (logs, sc'))"
  by pat_completeness auto

lemma slog_iteration_continues:
  "slog_iteration ctxErr lv sc = (logs, True, sc') \<Longrightarrow> length (pending sc') < length (pending sc)"
  by (auto simp: slog_iteration_def split: prod.splits bool.splits option.splits dest: Scan_consumes)

termination slog_loop
proof (relation "measure (\<lambda>(ctx, n, lv, sc). length (pending sc))")
qed (rule wf_measure, auto dest: slog_iteration_continues[OF sym])

declare slog_loop.simps [simp del]

definition streamToSlog :: "(nat \<Rightarrow> error option) \<Rightarrow> reader \<Rightarrow> level \<Rightarrow> log_record list \<times> scanner" where
  "streamToSlog ctx r lv = slog_loop ctx 0 lv (Buffer (NewScanner r) (64 * 1024) (1024 * 1024))"

text \<open>\<^verbatim>\<open>io.Copy(dst, src)\<close>: one turn of its loop reads up to 32 KiB and writes what it read.\<close>

definition copy_iteration :: "reader \<Rightarrow> string \<times> error option \<times> reader" where
  "copy_iteration r = (case Read r (32 * 1024) of ((bs, er), r') \<Rightarrow> (bs, er, r'))"

function copy_loop :: "reader \<Rightarrow> string \<times> error" where
  "copy_loop r =
     (case copy_iteration r of
        (bs, Some er, r') \<Rightarrow> (bs, er)
      | (bs, None, r') \<Rightarrow> (case copy_loop r' of (bs', er) \<Rightarrow> (bs @ bs', er)))"
  by pat_completeness auto
termination
  by (relation "measure (\<lambda>r. length (chunks r) + remaining r)")
     (auto simp: copy_iteration_def Read_def remaining_def split: list.splits if_splits)

declare copy_loop.simps [simp del]

text \<open>A goroutine of \<^verbatim>\<open>Run\<close>, run on its own until it returns: what it logs and what it writes.\<close>

definition run_consumer :: "(nat \<Rightarrow> error option) \<Rightarrow> consumer \<Rightarrow> log_record list \<times> string" where
  "run_consumer ctx c =
     (case c of
        StreamToSlog r lv \<Rightarrow> (fst (streamToSlog ctx r lv), [])
      | IoCopy dst r \<Rightarrow> ([], fst (copy_loop r)))"

section \<open>\<^verbatim>\<open>Run\<close> and its goroutines, interleaved\<close>

text \<open>
  \<^verbatim>\<open>Run\<close> starts its two consumers with \<^verbatim>\<open>go\<close> and never joins them, so that they
  run interleaved with the rest of \<^verbatim>\<open>Run\<close> and go on after it has returned. A state
  of the system holds the position of the main thread, the two goroutines, the context's
  error, the logging sink, what has been written to the terminal, and the calls made on the
  command. A goroutine that logs is its level, its scanner and whether its loop is still
  running; a goroutine that copies is its destination, its reader and the error that ended
  its loop, if it has ended. A goroutine has observed the end of its stream when a read of
  its pipe has returned \<^verbatim>\<open>io.EOF\<close>. An event is a step of the main thread, a step of
  one goroutine, or the cancellation of the context; a schedule is a list of events.
\<close>

datatype main_state = NotStarted | Waiting | Returned "error option"

datatype goroutine = Slog level scanner bool | Copy terminal reader "error option"

fun spawn :: "consumer \<Rightarrow> goroutine" where
  "spawn (StreamToSlog r lv) = Slog lv (Buffer (NewScanner r) (64 * 1024) (1024 * 1024)) True"
| "spawn (IoCopy dst r) = Copy dst r None"

fun spawned :: "cmd_call list \<Rightarrow> goroutine list" where
  "spawned [] = []"
| "spawned (Go c # cs) = spawn c # spawned cs"
| "spawned (c # cs) = spawned cs"

fun finished :: "goroutine \<Rightarrow> bool" where
  "finished (Slog lv sc running) = (\<not> running)"
| "finished (Copy dst r er) = (er \<noteq> None)"

fun observed_eof :: "goroutine \<Rightarrow> bool" where
  "observed_eof (Slog lv sc running) = (s_err sc = Some io_EOF)"
| "observed_eof (Copy dst r er) = (er = Some io_EOF)"

record system =
  main :: main_state
  gos :: "goroutine list"
  ctx_err :: "error option"
  slog :: "log_record list"
  written :: "terminal \<Rightarrow> string"
  calls :: "cmd_call list"

definition init :: system where
  "init = \<lparr>main = NotStarted, gos = [], ctx_err = None, slog = [], written = (\<lambda>t. []), calls = []\<rparr>"

datatype event = MainStep | GoStep nat | Cancel error

record invocation_of_Run =
  i_creator :: creator
  i_command :: string
  i_streamToLog :: bool
  i_args :: "string list"

definition main_step :: "invocation_of_Run \<Rightarrow> system \<Rightarrow> system" where
  "main_step iv s =
     (case main s of
        NotStarted \<Rightarrow>
          (case Run_launch (i_creator iv) (i_command iv) (i_streamToLog iv) (i_args iv) of
             (cs, Some err) \<Rightarrow> s\<lparr>main := Returned (Some err), calls := cs\<rparr>
           | (cs, None) \<Rightarrow> s\<lparr>main := Waiting, calls := cs, gos := spawned cs\<rparr>)
      | Waiting \<Rightarrow>
          (case Run_wait (i_creator iv (i_command iv) (i_args iv)) (ctx_err s) (i_command iv) of
             (cs, res) \<Rightarrow> s\<lparr>main := Returned res, calls := calls s @ cs\<rparr>)
      | Returned res \<Rightarrow> s)"

definition go_step :: "nat \<Rightarrow> system \<Rightarrow> system" where
  "go_step i s =
     (if i < length (gos s)
      then case gos s ! i of
             Slog lv sc running \<Rightarrow>
               if running
               then case slog_iteration (ctx_err s) lv sc of
                      (logs, continue, sc') \<Rightarrow>
                        s\<lparr>gos := (gos s)[i := Slog lv sc' continue], slog := slog s @ logs\<rparr>
               else s
           | Copy dst r er \<Rightarrow>
               if er = None
               then case copy_iteration r of
                      (bs, er', r') \<Rightarrow>
                        s\<lparr>gos := (gos s)[i := Copy dst r' er'],
                          written := (written s)(dst := written s dst @ bs)\<rparr>
               else s
      else s)"

fun step :: "invocation_of_Run \<Rightarrow> event \<Rightarrow> system \<Rightarrow> system" where
  "step iv MainStep s = main_step iv s"
| "step iv (GoStep i) s = go_step i s"
| "step iv (Cancel e) s = (if ctx_err s = None then s\<lparr>ctx_err := Some e\<rparr> else s)"

fun exec :: "invocation_of_Run \<Rightarrow> event list \<Rightarrow> system \<Rightarrow> system" where
  "exec iv [] s = s"
| "exec iv (e # es) s = exec iv es (step iv e s)"

section \<open>Lines of a stream\<close>

text \<open>Two contexts: one that is never cancelled and one cancelled from the \<open>k\<close>-th check on.\<close>

definition never_cancelled :: "nat \<Rightarrow> error option" where
  "never_cancelled n = None"

definition cancelled_from :: "nat \<Rightarrow> error \<Rightarrow> nat \<Rightarrow> error option" where
  "cancelled_from k e n = (if n < k then None else Some e)"

text \<open>
  The lines of a text: each ends at a newline, and the last one may end with the text.
\<close>

function lines_of :: "string \<Rightarrow> string list" where
  "lines_of p =
     (if p = [] then []
      else case IndexByte p newline of
             None \<Rightarrow> [p]
           | Some i \<Rightarrow> take i p # lines_of (drop (Suc i) p))"
  by pat_completeness auto
termination
  by (relation "measure length") (auto dest: IndexByte_less)

declare lines_of.simps [simp del]

text \<open>A reader that never returns zero bytes without an error, as a pipe does.\<close>

definition never_empty :: "reader \<Rightarrow> bool" where
  "never_empty r = ([] \<notin> set (chunks r))"

text \<open>
  The invariant of a scanner: the data lies within the buffer, and the buffer is not larger
  than the maximal token size.
\<close>

definition scanner_ok :: "scanner \<Rightarrow> bool" where
  "scanner_ok s =
     (s_start s + length (s_data s) \<le> s_buf_len s \<and> s_buf_len s \<le> s_maxTokenSize s \<and>
      s_maxTokenSize s \<le> maxInt div 2 \<and> never_empty (s_r s))"

text \<open>
  What one call of \<^verbatim>\<open>Scan\<close> does, in terms of the bytes that are left: the first line is
  the token if it and its newline fit the maximal token size; a last line without a newline
  is the token if it is shorter than the maximal token size.
\<close>

definition scan_post :: "scanner \<Rightarrow> bool \<times> scanner \<Rightarrow> bool" where
  "scan_post s res =
     (let p = pending s; m = s_maxTokenSize s; ok = fst res; s' = snd res in
      case IndexByte p newline of
        Some i \<Rightarrow>
          if i < m
          then ok \<and> s_token s' = dropCR (take i p) \<and> pending s' = drop (Suc i) p \<and> s_err s' = None \<and>
               scanner_ok s' \<and> final (s_r s') = final (s_r s) \<and> s_maxTokenSize s' = m
          else \<not> ok \<and> s_err s' = Some ErrTooLong
      | None \<Rightarrow>
          if m \<le> length p then \<not> ok \<and> s_err s' = Some ErrTooLong
          else if p = [] then \<not> ok \<and> s_err s' = Some (final (s_r s)) \<and> s_data s' = []
          else ok \<and> s_token s' = dropCR p \<and> s_data s' = [] \<and> s_err s' = Some (final (s_r s)))"

text \<open>
  What \<^verbatim>\<open>streamToSlog\<close> logs, in terms of the bytes \<open>p\<close> that are left, the maximal
  token size \<open>m\<close> and the final error \<open>fin\<close> of the reader.
\<close>

function slog_spec :: "(nat \<Rightarrow> error option) \<Rightarrow> nat \<Rightarrow> level \<Rightarrow> nat \<Rightarrow> error \<Rightarrow> string \<Rightarrow> log_record list" where
  "slog_spec ctx n lv m fin p =
     (case IndexByte p newline of
        Some i \<Rightarrow>
          if i < m
          then (case ctx n of
                  Some e \<Rightarrow> [\<lparr>r_level = LevelWarn, r_msg = ''stream canceled'', r_attrs = [(''reason'', e)]\<rparr>]
                | None \<Rightarrow> \<lparr>r_level = lv, r_msg = dropCR (take i p), r_attrs = []\<rparr>
                          # slog_spec ctx (n + 1) lv m fin (drop (Suc i) p))
          else [\<lparr>r_level = LevelError, r_msg = ''failed to read stream'', r_attrs = [(''err'', ErrTooLong)]\<rparr>]
      | None \<Rightarrow>
          if m \<le> length p
          then [\<lparr>r_level = LevelError, r_msg = ''failed to read stream'', r_attrs = [(''err'', ErrTooLong)]\<rparr>]
          else
            (if p = [] then []
             else case ctx n of
                    Some e \<Rightarrow> [\<lparr>r_level = LevelWarn, r_msg = ''stream canceled'', r_attrs = [(''reason'', e)]\<rparr>]
                  | None \<Rightarrow> [\<lparr>r_level = lv, r_msg = dropCR p, r_attrs = []\<rparr>])
            @ (if fin = io_EOF \<or> (p \<noteq> [] \<and> ctx n \<noteq> None) then []
               else [\<lparr>r_level = LevelError, r_msg = ''failed to read stream'', r_attrs = [(''err'', fin)]\<rparr>]))"
  by pat_completeness auto
termination
  by (relation "measure (\<lambda>(ctx, n, lv, m, fin, p). length p)") (auto dest: IndexByte_less)

declare slog_spec.simps [simp del]

text \<open>
  The first part of \<^verbatim>\<open>Run\<close> for an invocation, and the invariant that ties the position
  of the main thread to the calls it has made and the goroutines it has started.
\<close>

definition launched :: "invocation_of_Run \<Rightarrow> cmd_call list \<times> error option" where
  "launched iv = Run_launch (i_creator iv) (i_command iv) (i_streamToLog iv) (i_args iv)"

definition main_inv :: "invocation_of_Run \<Rightarrow> system \<Rightarrow> bool" where
  "main_inv iv s =
     (case main s of
        NotStarted \<Rightarrow> True
      | Waiting \<Rightarrow> snd (launched iv) = None \<and> calls s = fst (launched iv) \<and> length (gos s) = 2
      | Returned res \<Rightarrow>
          res = None \<longrightarrow>
            snd (launched iv) = None \<and> wait (i_creator iv (i_command iv) (i_args iv)) = None \<and>
            calls s = fst (launched iv) @ [CmdWait] \<and> length (gos s) = 2)"

section \<open>\<^verbatim>\<open>Scan\<close> returns the lines\<close>

lemma IndexByte_None: "IndexByte xs c = None \<longleftrightarrow> c \<notin> set xs"
  by (induction xs) auto

lemma IndexByte_Some:
  "IndexByte xs c = Some i \<longleftrightarrow> i < length xs \<and> xs ! i = c \<and> c \<notin> set (take i xs)"
proof (induction xs arbitrary: i)
  case Nil
  then show ?case by simp
next
  case (Cons x xs)
  show ?case
  proof (cases i)
    case 0
    then show ?thesis by (auto simp: IndexByte_None)
  next
    case (Suc k)
    then show ?thesis using Cons.IH[of k] by auto
  qed
qed

lemma IndexByte_append_Some:
  "IndexByte xs c = Some i \<Longrightarrow> IndexByte (xs @ ys) c = Some i"
  by (auto simp: IndexByte_Some nth_append)

lemma IndexByte_prefix_None:
  "IndexByte xs c = None \<Longrightarrow> IndexByte (xs @ ys) c = Some i \<Longrightarrow> length xs \<le> i"
proof (rule ccontr)
  assume n: "IndexByte xs c = None" and s: "IndexByte (xs @ ys) c = Some i" and "\<not> length xs \<le> i"
  then have "i < length xs" by simp
  with s have "xs ! i = c" by (simp add: IndexByte_Some nth_append)
  with \<open>i < length xs\<close> have "c \<in> set xs" by auto
  with n show False by (simp add: IndexByte_None)
qed

lemma split_step_None:
  assumes "s_err s = None"
  shows "split_step s =
           (case IndexByte (s_data s) newline of
              Some i \<Rightarrow> (True, s\<lparr>s_start := s_start s + (i + 1), s_data := drop (i + 1) (s_data s),
                                 s_token := dropCR (take i (s_data s))\<rparr>)
            | None \<Rightarrow> (False, if s_data s = [] then s else s\<lparr>s_token := []\<rparr>))"
  using assms by (auto simp: split_step_def ScanLines_def split: option.splits)

lemma split_step_Some:
  assumes "s_err s = Some e"
  shows "split_step s =
           (if s_data s = [] then (False, s\<lparr>s_token := []\<rparr>)
            else case IndexByte (s_data s) newline of
              Some i \<Rightarrow> (True, s\<lparr>s_start := s_start s + (i + 1), s_data := drop (i + 1) (s_data s),
                                 s_token := dropCR (take i (s_data s))\<rparr>)
            | None \<Rightarrow> (True, s\<lparr>s_start := s_start s + length (s_data s), s_data := [],
                                 s_token := dropCR (s_data s)\<rparr>))"
  using assms by (auto simp: split_step_def ScanLines_def split: option.splits)

lemma Scan_at_error:
  assumes "s_err s = Some e"
  shows "Scan s =
           (if s_data s = [] then (False, s\<lparr>s_token := [], s_start := 0, s_data := []\<rparr>)
            else case IndexByte (s_data s) newline of
              Some i \<Rightarrow> (True, s\<lparr>s_start := s_start s + (i + 1), s_data := drop (i + 1) (s_data s),
                                 s_token := dropCR (take i (s_data s))\<rparr>)
            | None \<Rightarrow> (True, s\<lparr>s_start := s_start s + length (s_data s), s_data := [],
                                 s_token := dropCR (s_data s)\<rparr>))"
  using assms by (subst Scan.simps) (simp add: split_step_Some split: option.splits)

lemma read_loop_explicit:
  assumes "s_start s + length (s_data s) < s_buf_len s" and "never_empty (s_r s)" and "s_err s = None"
  shows "read_loop 0 s =
           (let free = s_buf_len s - (s_start s + length (s_data s)) in
            case chunks (s_r s) of
              [] \<Rightarrow> s\<lparr>s_err := Some (final (s_r s))\<rparr>
            | c # cs \<Rightarrow>
                if length c \<le> free
                then s\<lparr>s_r := (s_r s)\<lparr>chunks := cs\<rparr>, s_data := s_data s @ c\<rparr>
                else s\<lparr>s_r := (s_r s)\<lparr>chunks := drop free c # cs\<rparr>, s_data := s_data s @ take free c\<rparr>)"
proof (cases "chunks (s_r s)")
  case Nil
  then show ?thesis using assms
    by (subst read_loop.simps) (simp add: Let_def Read_def setErr_def)
next
  case (Cons c cs)
  then have "c \<noteq> []" using assms(2) by (auto simp: never_empty_def)
  then show ?thesis using assms Cons
    by (subst read_loop.simps) (auto simp: Let_def Read_def)
qed


lemma scan_post_cong:
  "pending s = pending t \<Longrightarrow> s_maxTokenSize s = s_maxTokenSize t \<Longrightarrow> final (s_r s) = final (s_r t)
   \<Longrightarrow> scan_post s res = scan_post t res"
  unfolding scan_post_def by (simp only:)

lemma Scan_no_token:
  assumes "s_err s = None" and "IndexByte (s_data s) newline = None"
  shows "Scan s =
     (let s1 = shift (if s_data s = [] then s else s\<lparr>s_token := []\<rparr>) in
      if s_start s1 + length (s_data s1) = s_buf_len s1
      then (if s_buf_len s1 \<ge> s_maxTokenSize s1 \<or> s_buf_len s1 > maxInt div 2
            then (False, setErr ErrTooLong s1)
            else Scan (read_loop 0 (grow s1)))
      else Scan (read_loop 0 s1))"
  using assms by (subst Scan.simps) (simp add: split_step_None Let_def)

lemma Scan_post_read:
  assumes u: "s_data u = s_data s" "s_r u = s_r s" "s_err u = None" "s_maxTokenSize u = s_maxTokenSize s"
      "s_start u + length (s_data s) < s_buf_len u" "s_buf_len u \<le> s_maxTokenSize s"
    and ok: "scanner_ok s" and nt: "IndexByte (s_data s) newline = None"
    and ih: "\<And>t. remaining (s_r t) < remaining (s_r s) \<Longrightarrow> scanner_ok t \<Longrightarrow> s_err t = None
               \<Longrightarrow> scan_post t (Scan t)"
  shows "scan_post s (Scan (read_loop 0 u))"
proof -
  have ne: "never_empty (s_r u)" using ok u by (simp add: scanner_ok_def)
  have fr: "s_start u + length (s_data u) < s_buf_len u" using u by simp
  note rl = read_loop_explicit[OF fr ne u(3)]
  show ?thesis
  proof (cases "chunks (s_r s)")
    case Nil
    then have r: "read_loop 0 u = u\<lparr>s_err := Some (final (s_r s))\<rparr>"
      using rl u by (simp add: Let_def)
    have p: "pending s = s_data s" using Nil by (simp add: pending_def)
    have m: "length (s_data s) < s_maxTokenSize s" using u by simp
    show ?thesis unfolding r
      by (subst Scan_at_error[where e = "final (s_r s)"])
         (use nt p m u in \<open>auto simp: scan_post_def Let_def\<close>)
  next
    case (Cons c cs)
    let ?free = "s_buf_len u - (s_start u + length (s_data u))"
    let ?t = "read_loop 0 u"
    have c: "c \<noteq> []" using ok Cons by (auto simp: scanner_ok_def never_empty_def)
    have free: "0 < ?free" using fr by simp
    have t: "?t = (if length c \<le> ?free
                 then u\<lparr>s_r := (s_r u)\<lparr>chunks := cs\<rparr>, s_data := s_data u @ c\<rparr>
                 else u\<lparr>s_r := (s_r u)\<lparr>chunks := drop ?free c # cs\<rparr>, s_data := s_data u @ take ?free c\<rparr>)"
      using rl u Cons by (simp add: Let_def)
    have ne': "[] \<notin> set cs" using ok Cons by (auto simp: scanner_ok_def never_empty_def)
    have 1: "remaining (s_r ?t) < remaining (s_r s)"
      unfolding t using u Cons c free by (auto simp: remaining_def)
    have 2: "scanner_ok ?t"
      unfolding t using u ok ne' c fr by (auto simp: scanner_ok_def never_empty_def)
    have 3: "s_err ?t = None" unfolding t using u by simp
    have 4: "pending s = pending ?t" using u by (simp add: read_loop_pending) (simp add: pending_def)
    have 5: "s_maxTokenSize s = s_maxTokenSize ?t" "final (s_r s) = final (s_r ?t)"
      unfolding t using u by auto
    from ih[OF 1 2 3] show ?thesis using scan_post_cong[OF 4 5] by simp
  qed
qed

lemma shift_facts:
  "s_data (shift s) = s_data s" "s_r (shift s) = s_r s" "s_err (shift s) = s_err s"
  "s_maxTokenSize (shift s) = s_maxTokenSize s" "s_buf_len (shift s) = s_buf_len s"
  "s_start (shift s) \<le> s_start s"
  by (auto simp: shift_def)

lemma shift_full:
  "s_start s + length (s_data s) \<le> s_buf_len s \<Longrightarrow>
   s_start (shift s) + length (s_data s) = s_buf_len s \<Longrightarrow> s_start (shift s) = 0"
  by (auto simp: shift_def split: if_splits)

lemma grow_facts:
  "s_data (grow s) = s_data s" "s_r (grow s) = s_r s" "s_err (grow s) = s_err s"
  "s_maxTokenSize (grow s) = s_maxTokenSize s" "s_start (grow s) = 0"
  "s_buf_len (grow s) \<le> s_maxTokenSize s"
  "s_buf_len s < s_maxTokenSize s \<Longrightarrow> s_buf_len s < s_buf_len (grow s)"
  by (auto simp: grow_def Let_def startBufSize_def)

lemma Scan_post:
  "scanner_ok s \<Longrightarrow> s_err s = None \<Longrightarrow> scan_post s (Scan s)"
proof (induction "remaining (s_r s)" arbitrary: s rule: less_induct)
  case less
  note ok = less.prems(1) and en = less.prems(2)
  let ?p = "pending s" and ?m = "s_maxTokenSize s"
  have bl: "s_start s + length (s_data s) \<le> s_buf_len s" "s_buf_len s \<le> ?m" "?m \<le> maxInt div 2"
    using ok by (auto simp: scanner_ok_def)
  show ?case
  proof (cases "IndexByte (s_data s) newline")
    case (Some i)
    then have i: "i < length (s_data s)" by (rule IndexByte_less)
    have ip: "IndexByte ?p newline = Some i"
      unfolding pending_def using Some by (rule IndexByte_append_Some)
    have r: "Scan s = (True, s\<lparr>s_start := s_start s + (i + 1), s_data := drop (i + 1) (s_data s),
                                 s_token := dropCR (take i (s_data s))\<rparr>)"
      using en Some by (subst Scan.simps) (simp add: split_step_None)
    show ?thesis unfolding r using ip i bl ok en
      by (auto simp: scan_post_def Let_def pending_def scanner_ok_def)
  next
    case None
    let ?t = "if s_data s = [] then s else s\<lparr>s_token := []\<rparr>"
    let ?s1 = "shift ?t"
    have t: "s_data ?t = s_data s" "s_r ?t = s_r s" "s_err ?t = None" "s_maxTokenSize ?t = ?m"
      "s_buf_len ?t = s_buf_len s" "s_start ?t = s_start s"
      using en by auto
    have s1: "s_data ?s1 = s_data s" "s_r ?s1 = s_r s" "s_err ?s1 = None" "s_maxTokenSize ?s1 = ?m"
      "s_buf_len ?s1 = s_buf_len s" "s_start ?s1 \<le> s_start s"
      using t shift_facts[of ?t] by simp_all
    note sc = Scan_no_token[OF en None]
    have ih: "\<And>t. remaining (s_r t) < remaining (s_r s) \<Longrightarrow> scanner_ok t \<Longrightarrow> s_err t = None
               \<Longrightarrow> scan_post t (Scan t)"
      using less.hyps by blast
    show ?thesis
    proof (cases "s_start ?s1 + length (s_data ?s1) = s_buf_len ?s1")
      case full: True
      have z: "s_start ?s1 = 0"
        using shift_full[of ?t] bl full t s1 by simp
      then have len: "length (s_data s) = s_buf_len s" using full s1 by simp
      show ?thesis
      proof (cases "s_buf_len ?s1 \<ge> s_maxTokenSize ?s1 \<or> s_buf_len ?s1 > maxInt div 2")
        case True
        then have r: "Scan s = (False, setErr ErrTooLong ?s1)"
          using sc full by (simp add: Let_def)
        have big: "?m \<le> length (s_data s)" using True s1 bl len by auto
        have e: "s_err (setErr ErrTooLong ?s1) = Some ErrTooLong"
          using s1 by (simp add: setErr_def)
        have bigp: "?m \<le> length ?p" using big by (simp add: pending_def)
        have ok': "\<not> fst (False, setErr ErrTooLong ?s1)"
          "s_err (snd (False, setErr ErrTooLong ?s1)) = Some ErrTooLong"
          using e by simp_all
        show ?thesis
        proof (cases "IndexByte ?p newline")
          case n: None
          show ?thesis unfolding r scan_post_def Let_def n using bigp ok' by simp
        next
          case (Some j)
          then have "length (s_data s) \<le> j"
            using IndexByte_prefix_None[OF None] by (simp add: pending_def)
          then have "\<not> j < ?m" using big by simp
          then show ?thesis unfolding r scan_post_def Let_def Some using ok' by simp
        qed
      next
        case False
        then have r: "Scan s = Scan (read_loop 0 (grow ?s1))"
          using sc full by (simp add: Let_def)
        have lt: "s_buf_len ?s1 < s_maxTokenSize ?s1" using False by simp
        have "scan_post s (Scan (read_loop 0 (grow ?s1)))"
        proof (rule Scan_post_read[OF _ _ _ _ _ _ ok None ih])
          show "s_data (grow ?s1) = s_data s" using grow_facts(1)[of ?s1] s1 by simp
          show "s_r (grow ?s1) = s_r s" using grow_facts(2)[of ?s1] s1 by simp
          show "s_err (grow ?s1) = None" using grow_facts(3)[of ?s1] s1 by simp
          show "s_maxTokenSize (grow ?s1) = ?m" using grow_facts(4)[of ?s1] s1 by simp
          show "s_start (grow ?s1) + length (s_data s) < s_buf_len (grow ?s1)"
            using grow_facts(5)[of ?s1] grow_facts(7)[OF lt] len s1 by simp
          show "s_buf_len (grow ?s1) \<le> ?m" using grow_facts(6)[of ?s1] s1 by simp
        qed
        then show ?thesis unfolding r .
      qed
    next
      case nf: False
      then have r: "Scan s = Scan (read_loop 0 ?s1)"
        using sc by (simp add: Let_def)
      have "scan_post s (Scan (read_loop 0 ?s1))"
      proof (rule Scan_post_read[OF _ _ _ _ _ _ ok None ih])
        show "s_data ?s1 = s_data s" "s_r ?s1 = s_r s" "s_err ?s1 = None" "s_maxTokenSize ?s1 = ?m"
          using s1 by simp_all
        show "s_start ?s1 + length (s_data s) < s_buf_len ?s1" using nf s1 bl by simp
        show "s_buf_len ?s1 \<le> ?m" using s1 bl by simp
      qed
      then show ?thesis unfolding r .
    qed
  qed
qed

lemma slog_loop_spec:
  "scanner_ok s \<Longrightarrow> s_err s = None \<Longrightarrow>
   fst (slog_loop ctx n lv s) = slog_spec ctx n lv (s_maxTokenSize s) (final (s_r s)) (pending s)"
proof (induction "length (pending s)" arbitrary: s n rule: less_induct)
  case less
  let ?p = "pending s" and ?m = "s_maxTokenSize s" and ?fin = "final (s_r s)"
  obtain ok s' where sc: "Scan s = (ok, s')" by (cases "Scan s")
  have post: "scan_post s (ok, s')" using Scan_post[OF less.prems] sc by simp
  show ?case
  proof (cases "IndexByte ?p newline")
    case (Some i)
    then have i: "i < length ?p" by (rule IndexByte_less)
    show ?thesis
    proof (cases "i < ?m")
      case True
      with post Some have f: "ok" "s_token s' = dropCR (take i ?p)" "pending s' = drop (Suc i) ?p"
        "s_err s' = None" "scanner_ok s'" "final (s_r s') = ?fin" "s_maxTokenSize s' = ?m"
        by (simp_all add: scan_post_def Let_def)
      show ?thesis
      proof (cases "ctx n")
        case None
        have l: "length (pending s') < length ?p" using f(3) i by simp
        have ih: "fst (slog_loop ctx (n + 1) lv s') = slog_spec ctx (n + 1) lv ?m ?fin (drop (Suc i) ?p)"
          using less.hyps[OF l f(5) f(4), of "n + 1"] f by simp
        have "fst (slog_loop ctx n lv s) =
                \<lparr>r_level = lv, r_msg = dropCR (take i ?p), r_attrs = []\<rparr> # fst (slog_loop ctx (n + 1) lv s')"
          using sc f None
          by (subst slog_loop.simps) (simp add: slog_iteration_def Text_def split: prod.splits)
        then show ?thesis using ih Some True None
          by (subst slog_spec.simps) simp
      next
        case (Some e)
        have "fst (slog_loop ctx n lv s) =
                [\<lparr>r_level = LevelWarn, r_msg = ''stream canceled'', r_attrs = [(''reason'', e)]\<rparr>]"
          using sc f Some by (subst slog_loop.simps) (simp add: slog_iteration_def)
        then show ?thesis using \<open>IndexByte ?p newline = Some i\<close> True Some
          by (subst slog_spec.simps) simp
      qed
    next
      case False
      with post Some have f: "\<not> ok" "s_err s' = Some ErrTooLong"
        by (simp_all add: scan_post_def Let_def)
      have "fst (slog_loop ctx n lv s) =
              [\<lparr>r_level = LevelError, r_msg = ''failed to read stream'', r_attrs = [(''err'', ErrTooLong)]\<rparr>]"
        using sc f by (subst slog_loop.simps) (simp add: slog_iteration_def Err_def ErrTooLong_def io_EOF_def)
      then show ?thesis using Some False by (subst slog_spec.simps) simp
    qed
  next
    case None
    show ?thesis
    proof (cases "?m \<le> length ?p")
      case True
      with post None have f: "\<not> ok" "s_err s' = Some ErrTooLong"
        by (simp_all add: scan_post_def Let_def)
      have "fst (slog_loop ctx n lv s) =
              [\<lparr>r_level = LevelError, r_msg = ''failed to read stream'', r_attrs = [(''err'', ErrTooLong)]\<rparr>]"
        using sc f by (subst slog_loop.simps) (simp add: slog_iteration_def Err_def ErrTooLong_def io_EOF_def)
      then show ?thesis using None True by (subst slog_spec.simps) simp
    next
      case small: False
      show ?thesis
      proof (cases "?p = []")
        case True
        with post None small have f: "\<not> ok" "s_err s' = Some ?fin"
          by (simp_all add: scan_post_def Let_def)
        have "fst (slog_loop ctx n lv s) =
                (if ?fin = io_EOF then []
                 else [\<lparr>r_level = LevelError, r_msg = ''failed to read stream'', r_attrs = [(''err'', ?fin)]\<rparr>])"
          using sc f by (subst slog_loop.simps) (simp add: slog_iteration_def Err_def)
        then show ?thesis using None small True by (subst slog_spec.simps) simp
      next
        case False
        with post None small have f: "ok" "s_token s' = dropCR ?p" "s_data s' = []" "s_err s' = Some ?fin"
          by (simp_all add: scan_post_def Let_def)
        show ?thesis
        proof (cases "ctx n")
          case (Some e)
          have "fst (slog_loop ctx n lv s) =
                [\<lparr>r_level = LevelWarn, r_msg = ''stream canceled'', r_attrs = [(''reason'', e)]\<rparr>]"
            using sc f Some by (subst slog_loop.simps) (simp add: slog_iteration_def)
          then show ?thesis using None small False Some
            by (subst slog_spec.simps) simp
        next
          case cn: None
          have nx: "Scan s' = (False, s'\<lparr>s_token := [], s_start := 0, s_data := []\<rparr>)"
            using Scan_at_error[OF f(4)] f(3) by simp
          have "fst (slog_loop ctx (n + 1) lv s') =
                (if ?fin = io_EOF then []
                 else [\<lparr>r_level = LevelError, r_msg = ''failed to read stream'', r_attrs = [(''err'', ?fin)]\<rparr>])"
            using nx f by (subst slog_loop.simps) (simp add: slog_iteration_def Err_def)
          moreover have "fst (slog_loop ctx n lv s) =
                \<lparr>r_level = lv, r_msg = dropCR ?p, r_attrs = []\<rparr> # fst (slog_loop ctx (n + 1) lv s')"
            using sc f cn
            by (subst slog_loop.simps) (simp add: slog_iteration_def Text_def split: prod.splits)
          ultimately show ?thesis using None small False cn
            by (subst slog_spec.simps) simp
        qed
      qed
    qed
  qed
qed

section \<open>What a consumer logs\<close>

lemma streamToSlog_spec:
  "never_empty r \<Longrightarrow>
   fst (streamToSlog ctx r lv) = slog_spec ctx 0 lv (1024 * 1024) (final r) (concat (chunks r))"
proof -
  assume ne: "never_empty r"
  let ?s = "Buffer (NewScanner r) (64 * 1024) (1024 * 1024)"
  have ok: "scanner_ok ?s"
    using ne by (simp add: scanner_ok_def Buffer_def NewScanner_def maxInt_def)
  have e: "s_err ?s = None" by (simp add: Buffer_def NewScanner_def)
  have f: "s_maxTokenSize ?s = 1024 * 1024" "final (s_r ?s) = final r" "pending ?s = concat (chunks r)"
    by (simp_all add: Buffer_def NewScanner_def pending_def)
  show ?thesis unfolding streamToSlog_def using slog_loop_spec[OF ok e, of ctx 0 lv] f by simp
qed

lemma IndexByte_first: "c \<notin> set xs \<Longrightarrow> IndexByte (xs @ c # ys) c = Some (length xs)"
  by (induction xs) auto

lemma slog_spec_lines:
  "(\<forall>l\<in>set ls. newline \<notin> set l \<and> length l < m) \<Longrightarrow> (\<forall>j<length ls. ctx (n + j) = None) \<Longrightarrow>
   slog_spec ctx n lv m fin (concat (map (\<lambda>l. l @ [newline]) ls) @ q) =
     map (\<lambda>l. \<lparr>r_level = lv, r_msg = dropCR l, r_attrs = []\<rparr>) ls
     @ slog_spec ctx (n + length ls) lv m fin q"
proof (induction ls arbitrary: n)
  case Nil
  then show ?case by simp
next
  case (Cons l ls)
  have l: "newline \<notin> set l" "length l < m" using Cons.prems(1) by auto
  have c0: "ctx n = None" using Cons.prems(2) by force
  let ?q = "concat (map (\<lambda>l. l @ [newline]) ls) @ q"
  have p: "concat (map (\<lambda>l. l @ [newline]) (l # ls)) @ q = l @ newline # ?q" by simp
  have ix: "IndexByte (l @ newline # ?q) newline = Some (length l)"
    using IndexByte_first[OF l(1)] by simp
  have ctx': "\<forall>j<length ls. ctx (Suc n + j) = None"
  proof (intro allI impI)
    fix j assume "j < length ls"
    then have "Suc j < length (l # ls)" by simp
    with Cons.prems(2) have "ctx (n + Suc j) = None" by blast
    then show "ctx (Suc n + j) = None" by simp
  qed
  have ih: "slog_spec ctx (Suc n) lv m fin ?q =
     map (\<lambda>l. \<lparr>r_level = lv, r_msg = dropCR l, r_attrs = []\<rparr>) ls
     @ slog_spec ctx (Suc n + length ls) lv m fin q"
    using Cons.IH[OF _ ctx'] Cons.prems(1) by simp
  have step: "slog_spec ctx n lv m fin (l @ newline # ?q) =
     \<lparr>r_level = lv, r_msg = dropCR l, r_attrs = []\<rparr> # slog_spec ctx (Suc n) lv m fin ?q"
    by (subst slog_spec.simps[of ctx n lv m fin "l @ newline # ?q"]) (simp add: ix l c0)
  show ?case unfolding p step ih by simp
qed

lemma slog_spec_too_long:
  assumes "newline \<notin> set long" and "m \<le> length long"
  shows "slog_spec ctx n lv m fin (long @ rest) =
           [\<lparr>r_level = LevelError, r_msg = ''failed to read stream'', r_attrs = [(''err'', ErrTooLong)]\<rparr>]"
proof (cases "IndexByte (long @ rest) newline")
  case None
  then show ?thesis using assms by (subst slog_spec.simps) simp
next
  case (Some i)
  have "IndexByte long newline = None" using assms(1) by (simp add: IndexByte_None)
  from IndexByte_prefix_None[OF this Some] have "\<not> i < m" using assms(2) by simp
  then show ?thesis using Some by (subst slog_spec.simps) simp
qed

lemma slog_spec_cancelled:
  assumes "newline \<notin> set l" and "length l < m" and "ctx n = Some e"
  shows "slog_spec ctx n lv m fin (l @ newline # rest) =
           [\<lparr>r_level = LevelWarn, r_msg = ''stream canceled'', r_attrs = [(''reason'', e)]\<rparr>]"
  using IndexByte_first[OF assms(1), of rest] assms(2,3) by (subst slog_spec.simps) simp

lemma slog_spec_lines_of:
  "0 < m \<Longrightarrow> (\<forall>l\<in>set (lines_of p). length l < m) \<Longrightarrow>
   slog_spec never_cancelled n lv m fin p =
     map (\<lambda>l. \<lparr>r_level = lv, r_msg = dropCR l, r_attrs = []\<rparr>) (lines_of p)
     @ (if fin = io_EOF then []
        else [\<lparr>r_level = LevelError, r_msg = ''failed to read stream'', r_attrs = [(''err'', fin)]\<rparr>])"
proof (induction p arbitrary: n rule: lines_of.induct)
  case (1 p)
  have nc: "never_cancelled n = None" by (simp add: never_cancelled_def)
  let ?tail = "if fin = io_EOF then []
        else [\<lparr>r_level = LevelError, r_msg = ''failed to read stream'', r_attrs = [(''err'', fin)]\<rparr>]"
  show ?case
  proof (cases "p = []")
    case True
    have "lines_of p = []" using True by (subst lines_of.simps) simp
    moreover have "slog_spec never_cancelled n lv m fin p = ?tail"
      using True "1.prems"(1) by (subst slog_spec.simps[of never_cancelled n lv m fin p]) simp
    ultimately show ?thesis by simp
  next
    case ne: False
    show ?thesis
    proof (cases "IndexByte p newline")
      case None
      then have lp: "lines_of p = [p]" using ne by (subst lines_of.simps) simp
      then have "length p < m" using "1.prems"(2) by simp
      then have "slog_spec never_cancelled n lv m fin p =
          [\<lparr>r_level = lv, r_msg = dropCR p, r_attrs = []\<rparr>] @ ?tail"
        using None ne by (subst slog_spec.simps[of never_cancelled n lv m fin p]) (simp add: nc)
      then show ?thesis using lp by simp
    next
      case (Some i)
      then have lp: "lines_of p = take i p # lines_of (drop (Suc i) p)"
        using ne by (subst lines_of.simps) simp
      have i: "i < length p" using Some by (rule IndexByte_less)
      have im: "i < m" using "1.prems"(2) lp i by simp
      have "\<forall>l\<in>set (lines_of (drop (Suc i) p)). length l < m" using "1.prems"(2) lp by simp
      from "1.IH"[OF ne Some "1.prems"(1) this]
      have ih: "slog_spec never_cancelled (Suc n) lv m fin (drop (Suc i) p) =
          map (\<lambda>l. \<lparr>r_level = lv, r_msg = dropCR l, r_attrs = []\<rparr>) (lines_of (drop (Suc i) p)) @ ?tail" .
      have step: "slog_spec never_cancelled n lv m fin p =
          \<lparr>r_level = lv, r_msg = dropCR (take i p), r_attrs = []\<rparr>
          # slog_spec never_cancelled (Suc n) lv m fin (drop (Suc i) p)"
        using Some im by (subst slog_spec.simps[of never_cancelled n lv m fin p]) (simp add: nc)
      show ?thesis unfolding step ih lp by simp
    qed
  qed
qed

lemma copy_loop_all: "fst (copy_loop r) = concat (chunks r)"
proof (induction r rule: copy_loop.induct)
  case (1 r)
  obtain bs er r' where c: "copy_iteration r = (bs, er, r')" by (cases "copy_iteration r") auto
  have cc: "bs @ concat (chunks r') = concat (chunks r)"
    using c Read_concat[of r "32 * 1024"] by (auto simp: copy_iteration_def split: prod.splits)
  show ?case
  proof (cases er)
    case None
    have "fst (copy_loop r') = concat (chunks r')"
      by (rule "1.IH"[OF c[symmetric] refl None])
    then show ?thesis using c None cc
      by (subst copy_loop.simps) (auto split: prod.splits)
  next
    case (Some e)
    then have "chunks r = []" using c
      by (auto simp: copy_iteration_def Read_def split: list.splits if_splits)
    then show ?thesis using c Some cc
      by (subst copy_loop.simps) simp
  qed
qed

section \<open>The interleaved system\<close>

lemma go_step_local:
  "main (go_step i s) = main s \<and> calls (go_step i s) = calls s \<and> ctx_err (go_step i s) = ctx_err s
   \<and> length (gos (go_step i s)) = length (gos s)
   \<and> (j \<noteq> i \<longrightarrow> gos (go_step i s) ! j = gos s ! j)"
  by (auto simp: go_step_def split: goroutine.splits prod.splits)

lemma exec_snoc: "exec iv (es @ [e]) s = step iv e (exec iv es s)"
  by (induction es arbitrary: s) auto

lemma Run_launch_None:
  "Run_launch cr command streamToLog args = (cs, None) \<Longrightarrow>
   \<exists>so se. stdoutPipe (cr command args) = Inr so \<and> stderrPipe (cr command args) = Inr se \<and>
     start (cr command args) = None \<and>
     cs = [CommandContext command args, SetStdin, StdoutPipe, StderrPipe, Start]
          @ (if streamToLog
             then [Go (StreamToSlog so LevelInfo), Go (StreamToSlog se LevelError)]
             else [Go (IoCopy os_Stdout so), Go (IoCopy os_Stderr se)])"
  by (auto simp: Run_launch_def Let_def split: sum.splits option.splits)

lemma Run_launch_ok:
  "stdoutPipe (cr command args) = Inr so \<Longrightarrow> stderrPipe (cr command args) = Inr se \<Longrightarrow>
   start (cr command args) = None \<Longrightarrow>
   Run_launch cr command streamToLog args =
     ([CommandContext command args, SetStdin, StdoutPipe, StderrPipe, Start]
      @ (if streamToLog
         then [Go (StreamToSlog so LevelInfo), Go (StreamToSlog se LevelError)]
         else [Go (IoCopy os_Stdout so), Go (IoCopy os_Stderr se)]), None)"
  by (simp add: Run_launch_def)

lemma spawned_two:
  "snd (launched iv) = None \<Longrightarrow> length (spawned (fst (launched iv))) = 2"
proof -
  assume a: "snd (launched iv) = None"
  then have "launched iv = (fst (launched iv), None)" by (metis prod.collapse)
  from Run_launch_None[OF this[unfolded launched_def]] show ?thesis
    by (auto simp: launched_def)
qed

lemma main_step_NotStarted:
  "main s = NotStarted \<Longrightarrow>
   main_step iv s =
     (case snd (launched iv) of
        Some err \<Rightarrow> s\<lparr>main := Returned (Some err), calls := fst (launched iv)\<rparr>
      | None \<Rightarrow> s\<lparr>main := Waiting, calls := fst (launched iv), gos := spawned (fst (launched iv))\<rparr>)"
  by (simp add: main_step_def launched_def split: prod.splits option.splits)

lemma main_step_Waiting:
  "main s = Waiting \<Longrightarrow>
   main_step iv s =
     s\<lparr>main := Returned (snd (Run_wait (i_creator iv (i_command iv) (i_args iv)) (ctx_err s) (i_command iv))),
       calls := calls s @ [CmdWait]\<rparr>"
  by (simp add: main_step_def Run_wait_def split: prod.splits option.splits)

lemma main_step_Returned: "main s = Returned res \<Longrightarrow> main_step iv s = s"
  by (simp add: main_step_def)

lemma Run_wait_None: "snd (Run_wait c ctxErr command) = None \<longleftrightarrow> wait c = None"
  by (simp add: Run_wait_def split: option.splits)

lemma main_inv_step: "main_inv iv s \<Longrightarrow> main_inv iv (step iv e s)"
proof (cases e)
  case MainStep
  assume i: "main_inv iv s"
  show ?thesis
  proof (cases "main s")
    case NotStarted
    show ?thesis using MainStep spawned_two[of iv]
      by (simp add: main_step_NotStarted[OF NotStarted] main_inv_def split: option.splits)
  next
    case Waiting
    then show ?thesis using MainStep i
      by (simp add: main_step_Waiting[OF Waiting] main_inv_def Run_wait_None)
  next
    case (Returned res)
    then show ?thesis using MainStep i by (simp add: main_step_Returned[OF Returned])
  qed
next
  case (GoStep k)
  assume i: "main_inv iv s"
  show ?thesis using GoStep i go_step_local[of k s]
    by (simp add: main_inv_def split: main_state.splits)
next
  case (Cancel c)
  assume i: "main_inv iv s"
  then show ?thesis using Cancel by (simp add: main_inv_def split: main_state.splits)
qed

lemma main_inv_exec: "main_inv iv s \<Longrightarrow> main_inv iv (exec iv es s)"
  by (induction es arbitrary: s) (auto intro: main_inv_step)

lemma main_after:
  assumes "snd (launched iv) = None" and "wait (i_creator iv (i_command iv) (i_args iv)) = None"
  shows "main (exec iv es init) =
           (if count_list es MainStep = 0 then NotStarted
            else if count_list es MainStep = 1 then Waiting else Returned None)"
proof (induction es rule: rev_induct)
  case Nil
  then show ?case by (simp add: init_def)
next
  case (snoc e es)
  let ?s = "exec iv es init"
  show ?case
  proof (cases e)
    case MainStep
    show ?thesis
    proof (cases "main ?s")
      case NotStarted
      then show ?thesis using snoc MainStep assms(1)
        by (simp add: exec_snoc main_step_NotStarted[OF NotStarted] split: if_splits)
    next
      case Waiting
      then show ?thesis using snoc MainStep assms(2)
        by (simp add: exec_snoc main_step_Waiting[OF Waiting] Run_wait_None split: if_splits)
    next
      case (Returned res)
      then show ?thesis using snoc MainStep
        by (simp add: exec_snoc main_step_Returned[OF Returned] split: if_splits)
    qed
  next
    case (GoStep k)
    then show ?thesis using snoc go_step_local[of k "exec iv es init"] by (simp add: exec_snoc)
  next
    case (Cancel c)
    then show ?thesis using snoc by (simp add: exec_snoc)
  qed
qed

section \<open>Concrete inputs\<close>

definition demo_reader :: reader where
  "demo_reader = \<lparr>chunks = [''ok'', [CHR 0x0A]], final = io_EOF\<rparr>"

definition demo_cmd :: commander where
  "demo_cmd = \<lparr>stdoutPipe = Inr demo_reader, stderrPipe = Inr demo_reader, start = None,
               wait = Some (External ''exit status 1'')\<rparr>"

definition second_fails :: executor where
  "second_fails h c = (if length h = 1 then Some (External ''exit status 1'') else None)"

definition demo_build :: BuildOptions where
  "demo_build = \<lparr>ImportPath = ''./cmd/app'', Tags = [''latest''], Platform = [''linux/amd64''],
     BaseImage = ''alpine'', Bare = False, Local = True, Push = False, PreserveImportPaths = True\<rparr>"

definition demo_apply :: ApplyOptions where
  "demo_apply = \<lparr>Filenames = [''k8s/deployment.yaml''], Recursive = False, Selector = [],
     ABaseImage = ''alpine'', APlatform = [''linux/amd64''], ALocal = False, ABare = False,
     APreserveImportPaths = True\<rparr>"

definition demo_ok_cmd :: commander where
  "demo_ok_cmd = demo_cmd\<lparr>wait := None\<rparr>"

definition demo_creator :: creator where
  "demo_creator command args = demo_ok_cmd"

definition demo_run :: "bool \<Rightarrow> invocation_of_Run" where
  "demo_run streamToLog =
     \<lparr>i_creator = demo_creator, i_command = ''sh'', i_streamToLog = streamToLog,
      i_args = [''-c'', ''echo ok'']\<rparr>"

definition long_line :: string where
  "long_line = replicate (1024 * 1024) (CHR ''a'')"

definition long_reader :: reader where
  "long_reader = \<lparr>chunks = [''ok'' @ [newline], long_line @ [newline], ''never read''], final = io_EOF\<rparr>"

definition context_Canceled :: error where
  "context_Canceled = External ''context canceled''"

definition two_lines :: reader where
  "two_lines = \<lparr>chunks = [''one'' @ [newline] @ ''tw'', ''o'' @ [newline]], final = io_EOF\<rparr>"

definition closed_reader :: reader where
  "closed_reader = \<lparr>chunks = [''ok'' @ [newline], ''cut''], final = External ''file already closed''\<rparr>"

lemma long_line_facts: "newline \<notin> set long_line" "length long_line = 1024 * 1024"
  by (simp_all add: long_line_def newline_def)

lemma lines_of_demo: "lines_of (''ok'' @ [newline]) = [''ok'']"
  by (simp add: lines_of.simps newline_def)

lemma lines_of_closed: "lines_of (''ok'' @ [newline] @ ''cut'') = [''ok'', ''cut'']"
  by (simp add: lines_of.simps newline_def)

section \<open>The main thread of \<^verbatim>\<open>Run\<close>: errors of the wait, start and pipe phases\<close>

text \<open>
  C1. Whenever both pipes are obtained, the start succeeds and \<^verbatim>\<open>cmd.Wait()\<close> returns an
  error, in either streaming mode, the result is decided by the context first: if
  \<^verbatim>\<open>ctx.Err()\<close> is not nil, \<^verbatim>\<open>Run\<close> returns the canceled error, which names the command
  and wraps the context's error; otherwise it returns the failed error, which names the
  command and wraps the error of the wait.
\<close>

theorem Run_wait_error_classified:
  assumes "stdoutPipe (cr command args) = Inr so"
    and "stderrPipe (cr command args) = Inr se"
    and "start (cr command args) = None"
    and "wait (cr command args) = Some err"
  shows "snd (Run cr ctxErr command streamToLog args) =
           Some (case ctxErr of
                   Some cause \<Rightarrow> Errorf ''command %q canceled: %w'' [Q command, W cause]
                 | None \<Rightarrow> Errorf ''command %q failed: %w'' [Q command, W err])
         \<and> map_option classify (snd (Run cr ctxErr command streamToLog args)) =
             Some (Some (if ctxErr \<noteq> None then CancelledFailure else RunFailure))
         \<and> Option.bind (snd (Run cr ctxErr command streamToLog args)) Unwrap =
             (case ctxErr of Some cause \<Rightarrow> Some cause | None \<Rightarrow> Some err)
         \<and> last (fst (Run cr ctxErr command streamToLog args)) = CmdWait"
  using assms by (simp add: Run_def Run_launch_def Run_wait_def split: option.splits)

theorem Run_wait_error_classified_witness:
  "snd (Run (\<lambda>c a. demo_cmd) (Some (External ''context canceled'')) ''false'' True []) =
     Some (Errorf ''command %q canceled: %w'' [Q ''false'', W (External ''context canceled'')])
   \<and> snd (Run (\<lambda>c a. demo_cmd) None ''false'' True []) =
     Some (Errorf ''command %q failed: %w'' [Q ''false'', W (External ''exit status 1'')])
   \<and> snd (Run (\<lambda>c a. demo_cmd) (Some (External ''context canceled'')) ''false'' False []) =
     Some (Errorf ''command %q canceled: %w'' [Q ''false'', W (External ''context canceled'')])
   \<and> snd (Run (\<lambda>c a. demo_cmd) None ''false'' False []) =
     Some (Errorf ''command %q failed: %w'' [Q ''false'', W (External ''exit status 1'')])"
  using Run_wait_error_classified[where cr = "\<lambda>c a. demo_cmd" and command = "''false''" and args = "[]"
          and so = demo_reader and se = demo_reader and err = "External ''exit status 1''"
          and ctxErr = "Some (External ''context canceled'')" and streamToLog = True]
    Run_wait_error_classified[where cr = "\<lambda>c a. demo_cmd" and command = "''false''" and args = "[]"
          and so = demo_reader and se = demo_reader and err = "External ''exit status 1''"
          and ctxErr = None and streamToLog = True]
    Run_wait_error_classified[where cr = "\<lambda>c a. demo_cmd" and command = "''false''" and args = "[]"
          and so = demo_reader and se = demo_reader and err = "External ''exit status 1''"
          and ctxErr = "Some (External ''context canceled'')" and streamToLog = False]
    Run_wait_error_classified[where cr = "\<lambda>c a. demo_cmd" and command = "''false''" and args = "[]"
          and so = demo_reader and se = demo_reader and err = "External ''exit status 1''"
          and ctxErr = None and streamToLog = False]
  by (simp add: demo_cmd_def)

text \<open>
  C3. Whenever both pipes are obtained and \<^verbatim>\<open>cmd.Start()\<close> fails, in either streaming mode
  and whatever the context, \<^verbatim>\<open>Run\<close> returns the start error, which names the command and
  wraps the error of the start; the result is not a run failure, \<^verbatim>\<open>cmd.Wait()\<close> is never
  called and no goroutine is started.
\<close>

theorem Run_start_failure:
  assumes "stdoutPipe (cr command args) = Inr so"
    and "stderrPipe (cr command args) = Inr se"
    and "start (cr command args) = Some err"
  shows "Run cr ctxErr command streamToLog args =
           ([CommandContext command args, SetStdin, StdoutPipe, StderrPipe, Start],
            Some (Errorf ''failed to start command %q: %w'' [Q command, W err]))
         \<and> map_option classify (snd (Run cr ctxErr command streamToLog args)) = Some (Some StartFailure)
         \<and> CmdWait \<notin> set (fst (Run cr ctxErr command streamToLog args))
         \<and> \<not> list_ex is_Go (fst (Run cr ctxErr command streamToLog args))"
  using assms by (simp add: Run_def Run_launch_def)

theorem Run_start_failure_witness:
  "Run (\<lambda>c a. demo_cmd\<lparr>start := Some (External ''executable file not found in $PATH'')\<rparr>)
       None ''doesnotexist123'' False [] =
     ([CommandContext ''doesnotexist123'' [], SetStdin, StdoutPipe, StderrPipe, Start],
      Some (Errorf ''failed to start command %q: %w''
              [Q ''doesnotexist123'', W (External ''executable file not found in $PATH'')]))
   \<and> Run (\<lambda>c a. demo_cmd\<lparr>start := Some (External ''executable file not found in $PATH'')\<rparr>)
       (Some (External ''context canceled'')) ''doesnotexist123'' True [] =
     ([CommandContext ''doesnotexist123'' [], SetStdin, StdoutPipe, StderrPipe, Start],
      Some (Errorf ''failed to start command %q: %w''
              [Q ''doesnotexist123'', W (External ''executable file not found in $PATH'')]))"
  using Run_start_failure[where
          cr = "\<lambda>c a. demo_cmd\<lparr>start := Some (External ''executable file not found in $PATH'')\<rparr>"
          and command = "''doesnotexist123''" and args = "[]" and so = demo_reader and se = demo_reader
          and err = "External ''executable file not found in $PATH''" and ctxErr = None
          and streamToLog = False]
    Run_start_failure[where
          cr = "\<lambda>c a. demo_cmd\<lparr>start := Some (External ''executable file not found in $PATH'')\<rparr>"
          and command = "''doesnotexist123''" and args = "[]" and so = demo_reader and se = demo_reader
          and err = "External ''executable file not found in $PATH''"
          and ctxErr = "Some (External ''context canceled'')" and streamToLog = True]
  by (simp add: demo_cmd_def)

text \<open>
  C10. When \<^verbatim>\<open>cmd.StdoutPipe()\<close> fails, or it succeeds and \<^verbatim>\<open>cmd.StderrPipe()\<close> fails,
  \<^verbatim>\<open>Run\<close> returns that error wrapped; in both cases \<^verbatim>\<open>cmd.Start()\<close> and
  \<^verbatim>\<open>cmd.Wait()\<close> are never called and no goroutine is started.
\<close>

theorem Run_pipe_failure:
  "(stdoutPipe (cr command args) = Inl err \<longrightarrow>
      Run cr ctxErr command streamToLog args =
        ([CommandContext command args, SetStdin, StdoutPipe],
         Some (Errorf ''failed to get stdout pipe: %w'' [W err])))
   \<and> (stdoutPipe (cr command args) = Inr r \<and> stderrPipe (cr command args) = Inl err \<longrightarrow>
      Run cr ctxErr command streamToLog args =
        ([CommandContext command args, SetStdin, StdoutPipe, StderrPipe],
         Some (Errorf ''failed to get stderr pipe: %w'' [W err])))
   \<and> (isl (stdoutPipe (cr command args)) \<or> isl (stderrPipe (cr command args)) \<longrightarrow>
      snd (Run cr ctxErr command streamToLog args) \<noteq> None
      \<and> Start \<notin> set (fst (Run cr ctxErr command streamToLog args))
      \<and> CmdWait \<notin> set (fst (Run cr ctxErr command streamToLog args))
      \<and> \<not> list_ex is_Go (fst (Run cr ctxErr command streamToLog args)))"
  by (auto simp: Run_def Run_launch_def Run_wait_def Let_def isl_def split: sum.splits option.splits if_splits)

theorem Run_pipe_failure_witness:
  "Run (\<lambda>c a. demo_cmd\<lparr>stderrPipe := Inl (External ''too many open files'')\<rparr>) None ''sh'' True [''-c''] =
     ([CommandContext ''sh'' [''-c''], SetStdin, StdoutPipe, StderrPipe],
      Some (Errorf ''failed to get stderr pipe: %w'' [W (External ''too many open files'')]))
   \<and> Run (\<lambda>c a. demo_cmd\<lparr>stdoutPipe := Inl (External ''too many open files'')\<rparr>) None ''sh'' True [''-c''] =
     ([CommandContext ''sh'' [''-c''], SetStdin, StdoutPipe],
      Some (Errorf ''failed to get stdout pipe: %w'' [W (External ''too many open files'')]))"
  using Run_pipe_failure[of "\<lambda>c a. demo_cmd\<lparr>stderrPipe := Inl (External ''too many open files'')\<rparr>"
          "''sh''" "[''-c'']" "External ''too many open files''" None True demo_reader]
        Run_pipe_failure[of "\<lambda>c a. demo_cmd\<lparr>stdoutPipe := Inl (External ''too many open files'')\<rparr>"
          "''sh''" "[''-c'']" "External ''too many open files''" None True demo_reader]
  by (simp add: demo_cmd_def)

section \<open>The runners: validation, sequencing and argument lists\<close>

text \<open>
  C7. Every operation of kox, helmx and golang that requires a field returns its validation
  error, with no invocation of the executor, when that field is empty.
\<close>

theorem validation_before_invocation:
  "(ImportPath bo = [] \<longrightarrow> Build ex bo = ([], Some (Errorf ''import path is required'' [])))
   \<and> (Filenames ao = [] \<longrightarrow> Apply ex ao = ([], Some (Errorf ''at least one filename is required'' [])))
   \<and> (DFilenames dopts = [] \<longrightarrow> Delete ex dopts = ([], Some (Errorf ''at least one filename is required'' [])))
   \<and> (paths = [] \<longrightarrow> Resolve ex paths args = ([], Some (Errorf ''at least one import path is required'' [])))
   \<and> (path = [] \<longrightarrow> Publish ex path args = ([], Some (Errorf ''import path is required'' [])))
   \<and> (ReleaseName io = [] \<longrightarrow> Install ex io = ([], Some (Errorf ''release name is required'' [])))
   \<and> (ReleaseName io \<noteq> [] \<and> Chart io = [] \<longrightarrow> Install ex io = ([], Some (Errorf ''chart is required'' [])))
   \<and> (UReleaseName uo = [] \<longrightarrow> Upgrade ex uo = ([], Some (Errorf ''release name is required'' [])))
   \<and> (UReleaseName uo \<noteq> [] \<and> UChart uo = [] \<longrightarrow> Upgrade ex uo = ([], Some (Errorf ''chart is required'' [])))
   \<and> (rel = [] \<longrightarrow> Uninstall ex rel ns args = ([], Some (Errorf ''release name is required'' [])))
   \<and> (rel = [] \<longrightarrow> Status ex rel ns args = ([], Some (Errorf ''release name is required'' [])))
   \<and> (rel = [] \<longrightarrow> Template ex rel chart args = ([], Some (Errorf ''release name is required'' [])))
   \<and> (rel \<noteq> [] \<and> chart = [] \<longrightarrow> Template ex rel chart args = ([], Some (Errorf ''chart is required'' [])))
   \<and> (chart = [] \<longrightarrow> Lint ex chart args = ([], Some (Errorf ''chart path is required'' [])))
   \<and> (chart = [] \<longrightarrow> Package ex chart args = ([], Some (Errorf ''chart path is required'' [])))
   \<and> (name = [] \<longrightarrow> RepoAdd ex name url args = ([], Some (Errorf ''repository name is required'' [])))
   \<and> (name \<noteq> [] \<and> url = [] \<longrightarrow> RepoAdd ex name url args = ([], Some (Errorf ''repository URL is required'' [])))
   \<and> (pkgs = [] \<longrightarrow> RunInstall ex pkgs args = ([], Some (Errorf ''no package specified for installation'' [])))
   \<and> (Binary gopts = [] \<longrightarrow> RunBuild ex fj mk gopts = ([], Some (Errorf ''binary name is required'' [])))"
  by (simp add: Build_def Apply_def Delete_def Resolve_def Publish_def Install_def Upgrade_def
      Uninstall_def Status_def Template_def Lint_def Package_def RepoAdd_def RunInstall_def RunBuild_def)

theorem validation_before_invocation_witness:
  "Build (\<lambda>h c. None) (demo_build\<lparr>ImportPath := []\<rparr>) = ([], Some (Errorf ''import path is required'' []))
   \<and> Install (\<lambda>h c. None) \<lparr>ReleaseName = ''example'', Chart = [], Namespace = ''default'', Values = [],
         Set = [], CreateNamespace = True, Wait = True, Timeout = []\<rparr>
       = ([], Some (Errorf ''chart is required'' []))
   \<and> RunInstall (\<lambda>h c. None) [] [''-v''] = ([], Some (Errorf ''no package specified for installation'' []))"
  using validation_before_invocation[where bo = "demo_build\<lparr>ImportPath := []\<rparr>" and ex = "\<lambda>h c. None"
      and io = "\<lparr>ReleaseName = ''example'', Chart = [], Namespace = ''default'', Values = [],
         Set = [], CreateNamespace = True, Wait = True, Timeout = []\<rparr>"
      and pkgs = "[]" and args = "[''-v'']"]
  by simp

lemma install_loop_all_succeed:
  "(\<forall>i<length pkgs. ex (done @ map (install_inv args) (take i pkgs)) (install_inv args (pkgs ! i)) = None)
   \<Longrightarrow> install_loop ex done pkgs args = (done @ map (install_inv args) pkgs, None)"
proof (induction pkgs arbitrary: "done")
  case Nil
  then show ?case by simp
next
  case (Cons p ps)
  from Cons.prems have h0: "ex done (install_inv args p) = None" by force
  have "\<forall>i<length ps. ex ((done @ [install_inv args p]) @ map (install_inv args) (take i ps))
            (install_inv args (ps ! i)) = None"
  proof (intro allI impI)
    fix i assume "i < length ps"
    then have "Suc i < length (p # ps)" by simp
    with Cons.prems have "ex (done @ map (install_inv args) (take (Suc i) (p # ps)))
            (install_inv args ((p # ps) ! Suc i)) = None" by blast
    then show "ex ((done @ [install_inv args p]) @ map (install_inv args) (take i ps))
            (install_inv args (ps ! i)) = None" by simp
  qed
  from Cons.IH[OF this] h0 show ?case by (simp add: install_inv_def)
qed

lemma install_loop_first_failure:
  "i < length pkgs \<Longrightarrow>
   (\<forall>j<i. ex (done @ map (install_inv args) (take j pkgs)) (install_inv args (pkgs ! j)) = None) \<Longrightarrow>
   ex (done @ map (install_inv args) (take i pkgs)) (install_inv args (pkgs ! i)) = Some err \<Longrightarrow>
   install_loop ex done pkgs args =
     (done @ map (install_inv args) (take (Suc i) pkgs),
      Some (Errorf ''failed to install %s: %w'' [S (pkgs ! i), W err]))"
proof (induction pkgs arbitrary: "done" i)
  case Nil
  then show ?case by simp
next
  case (Cons p ps)
  show ?case
  proof (cases i)
    case 0
    with Cons.prems show ?thesis by (simp add: install_inv_def)
  next
    case (Suc k)
    with Cons.prems have k: "k < length ps" by simp
    from Cons.prems Suc have h0: "ex done (install_inv args p) = None" by force
    have pre: "\<forall>j<k. ex ((done @ [install_inv args p]) @ map (install_inv args) (take j ps))
            (install_inv args (ps ! j)) = None"
    proof (intro allI impI)
      fix j assume "j < k"
      then have "Suc j < i" using Suc by simp
      with Cons.prems(2) have "ex (done @ map (install_inv args) (take (Suc j) (p # ps)))
            (install_inv args ((p # ps) ! Suc j)) = None" by blast
      then show "ex ((done @ [install_inv args p]) @ map (install_inv args) (take j ps))
            (install_inv args (ps ! j)) = None" by simp
    qed
    from Cons.prems(3) Suc
    have f: "ex ((done @ [install_inv args p]) @ map (install_inv args) (take k ps))
            (install_inv args (ps ! k)) = Some err" by simp
    from Cons.IH[OF k pre f] h0 Suc show ?thesis by (simp add: install_inv_def)
  qed
qed

text \<open>
  C8. \<^verbatim>\<open>RunInstall\<close> installs the packages in order and \<^verbatim>\<open>RunModTasks\<close> runs
  \<^verbatim>\<open>go mod tidy\<close> and then \<^verbatim>\<open>go mod verify\<close>: each returns the wrapped error of the first
  invocation that fails, having made no later invocation, and success when every invocation
  succeeds.
\<close>

theorem sequence_stops_at_first_failure:
  "(pkgs \<noteq> [] \<and>
    (\<forall>i<length pkgs. ex (map (install_inv args) (take i pkgs)) (install_inv args (pkgs ! i)) = None)
      \<longrightarrow> RunInstall ex pkgs args = (map (install_inv args) pkgs, None))
   \<and> (i < length pkgs \<and>
       (\<forall>j<i. ex (map (install_inv args) (take j pkgs)) (install_inv args (pkgs ! j)) = None) \<and>
       ex (map (install_inv args) (take i pkgs)) (install_inv args (pkgs ! i)) = Some err
      \<longrightarrow> RunInstall ex pkgs args =
            (map (install_inv args) (take (Suc i) pkgs),
             Some (Errorf ''failed to install %s: %w'' [S (pkgs ! i), W err])))
   \<and> (ex [] (''go'', False, [''mod'', ''tidy'']) = Some err
      \<longrightarrow> RunModTasks ex =
            ([(''go'', False, [''mod'', ''tidy''])],
             Some (Errorf ''failed to run 'go %s': %w'' [S ''mod tidy'', W err])))
   \<and> (ex [] (''go'', False, [''mod'', ''tidy'']) = None \<and>
       ex [(''go'', False, [''mod'', ''tidy''])] (''go'', False, [''mod'', ''verify'']) = Some err
      \<longrightarrow> RunModTasks ex =
            ([(''go'', False, [''mod'', ''tidy'']), (''go'', False, [''mod'', ''verify''])],
             Some (Errorf ''failed to run 'go %s': %w'' [S ''mod verify'', W err])))
   \<and> (ex [] (''go'', False, [''mod'', ''tidy'']) = None \<and>
       ex [(''go'', False, [''mod'', ''tidy''])] (''go'', False, [''mod'', ''verify'']) = None
      \<longrightarrow> RunModTasks ex =
            ([(''go'', False, [''mod'', ''tidy'']), (''go'', False, [''mod'', ''verify''])], None))"
proof (intro conjI impI)
  assume "pkgs \<noteq> [] \<and>
    (\<forall>i<length pkgs. ex (map (install_inv args) (take i pkgs)) (install_inv args (pkgs ! i)) = None)"
  then show "RunInstall ex pkgs args = (map (install_inv args) pkgs, None)"
    using install_loop_all_succeed[of pkgs ex "[]" args] by (simp add: RunInstall_def)
next
  assume "i < length pkgs \<and>
       (\<forall>j<i. ex (map (install_inv args) (take j pkgs)) (install_inv args (pkgs ! j)) = None) \<and>
       ex (map (install_inv args) (take i pkgs)) (install_inv args (pkgs ! i)) = Some err"
  then show "RunInstall ex pkgs args =
            (map (install_inv args) (take (Suc i) pkgs),
             Some (Errorf ''failed to install %s: %w'' [S (pkgs ! i), W err]))"
    using install_loop_first_failure[of i pkgs ex "[]" args err] by (auto simp add: RunInstall_def)
qed (simp_all add: RunModTasks_def commands_def)

theorem sequence_stops_at_first_failure_witness:
  "RunInstall second_fails [''a'', ''b'', ''c''] [] =
     ([(''go'', False, [''install'', ''a'']), (''go'', False, [''install'', ''b''])],
      Some (Errorf ''failed to install %s: %w'' [S ''b'', W (External ''exit status 1'')]))
   \<and> RunModTasks second_fails =
     ([(''go'', False, [''mod'', ''tidy'']), (''go'', False, [''mod'', ''verify''])],
      Some (Errorf ''failed to run 'go %s': %w'' [S ''mod verify'', W (External ''exit status 1'')]))
   \<and> RunInstall (\<lambda>h c. None) [''a'', ''b''] [''-v''] =
     ([(''go'', False, [''install'', ''a'', ''-v'']), (''go'', False, [''install'', ''b'', ''-v''])], None)"
  using sequence_stops_at_first_failure[of "[''a'', ''b'', ''c'']" second_fails "[]" 1 "External ''exit status 1''"]
        sequence_stops_at_first_failure[of "[''a'', ''b'']" "\<lambda>h c. None" "[''-v'']" 0 "External ''x''"]
  by (simp add: second_fails_def install_inv_def less_Suc_eq all_conj_distrib)

text \<open>
  C9. When the import path (for \<^verbatim>\<open>Build\<close>) or the file names (for \<^verbatim>\<open>Apply\<close>) pass
  validation, a non-empty \<^verbatim>\<open>BaseImage\<close> puts the adjacent pair \<^verbatim>\<open>--base-import-paths\<close>,
  value into the argument list passed to \<^verbatim>\<open>ko\<close>, and \<^verbatim>\<open>PreserveImportPaths\<close> makes
  \<^verbatim>\<open>--preserve-import-paths\<close> the last argument.
\<close>

theorem base_image_flag:
  "(ImportPath bo \<noteq> [] \<and> BaseImage bo \<noteq> [] \<longrightarrow>
      (\<exists>pre post. fst (Build ex bo) =
          [(''ko'', False, pre @ [''--base-import-paths'', BaseImage bo] @ post)]))
   \<and> (ImportPath bo \<noteq> [] \<and> PreserveImportPaths bo \<longrightarrow>
      (\<exists>pre. fst (Build ex bo) = [(''ko'', False, pre @ [''--preserve-import-paths''])]))
   \<and> (Filenames ao \<noteq> [] \<and> ABaseImage ao \<noteq> [] \<longrightarrow>
      (\<exists>pre post. fst (Apply ex ao) =
          [(''ko'', False, pre @ [''--base-import-paths'', ABaseImage ao] @ post)]))
   \<and> (Filenames ao \<noteq> [] \<and> APreserveImportPaths ao \<longrightarrow>
      (\<exists>pre. fst (Apply ex ao) = [(''ko'', False, pre @ [''--preserve-import-paths''])]))"
proof (intro conjI impI)
  assume a: "ImportPath bo \<noteq> [] \<and> BaseImage bo \<noteq> []"
  have "Build_args bo =
      ([''build'', ImportPath bo] @ flag_each ''--tags'' (Tags bo) @ flag_each ''--platform'' (Platform bo))
      @ [''--base-import-paths'', BaseImage bo]
      @ (flag_if (Bare bo) ''--bare'' @ flag_if (Local bo) ''--local'' @ flag_if (Push bo) ''--push''
         @ flag_if (PreserveImportPaths bo) ''--preserve-import-paths'')"
    using a by (simp add: Build_args_def flag_nonempty_def)
  then show "\<exists>pre post. fst (Build ex bo) =
          [(''ko'', False, pre @ [''--base-import-paths'', BaseImage bo] @ post)]"
    using a by (simp only: Build_def run_once_def fst_conv if_False) blast
next
  assume a: "ImportPath bo \<noteq> [] \<and> PreserveImportPaths bo"
  have "Build_args bo =
      ([''build'', ImportPath bo] @ flag_each ''--tags'' (Tags bo) @ flag_each ''--platform'' (Platform bo)
       @ flag_nonempty ''--base-import-paths'' (BaseImage bo)
       @ flag_if (Bare bo) ''--bare'' @ flag_if (Local bo) ''--local'' @ flag_if (Push bo) ''--push'')
      @ [''--preserve-import-paths'']"
    using a by (simp add: Build_args_def flag_if_def)
  then show "\<exists>pre. fst (Build ex bo) = [(''ko'', False, pre @ [''--preserve-import-paths''])]"
    using a by (simp only: Build_def run_once_def fst_conv if_False) blast
next
  assume a: "Filenames ao \<noteq> [] \<and> ABaseImage ao \<noteq> []"
  have "Apply_args ao =
      ([''apply''] @ flag_each ''-f'' (Filenames ao) @ flag_if (Recursive ao) ''--recursive''
       @ flag_nonempty ''--selector'' (Selector ao))
      @ [''--base-import-paths'', ABaseImage ao]
      @ (flag_each ''--platform'' (APlatform ao) @ flag_if (ALocal ao) ''--local''
         @ flag_if (ABare ao) ''--bare'' @ flag_if (APreserveImportPaths ao) ''--preserve-import-paths'')"
    using a by (simp add: Apply_args_def flag_nonempty_def)
  then show "\<exists>pre post. fst (Apply ex ao) =
          [(''ko'', False, pre @ [''--base-import-paths'', ABaseImage ao] @ post)]"
    using a by (simp only: Apply_def run_once_def fst_conv list.size(3) length_0_conv if_False) blast
next
  assume a: "Filenames ao \<noteq> [] \<and> APreserveImportPaths ao"
  have "Apply_args ao =
      ([''apply''] @ flag_each ''-f'' (Filenames ao) @ flag_if (Recursive ao) ''--recursive''
       @ flag_nonempty ''--selector'' (Selector ao)
       @ flag_nonempty ''--base-import-paths'' (ABaseImage ao)
       @ flag_each ''--platform'' (APlatform ao) @ flag_if (ALocal ao) ''--local''
       @ flag_if (ABare ao) ''--bare'')
      @ [''--preserve-import-paths'']"
    using a by (simp add: Apply_args_def flag_if_def)
  then show "\<exists>pre. fst (Apply ex ao) = [(''ko'', False, pre @ [''--preserve-import-paths''])]"
    using a by (simp only: Apply_def run_once_def fst_conv list.size(3) length_0_conv if_False) blast
qed

theorem base_image_flag_witness:
  "(\<exists>pre post. fst (Build (\<lambda>h c. None) demo_build) =
      [(''ko'', False, pre @ [''--base-import-paths'', ''alpine''] @ post)])
   \<and> (\<exists>pre. fst (Build (\<lambda>h c. None) demo_build) = [(''ko'', False, pre @ [''--preserve-import-paths''])])
   \<and> (\<exists>pre post. fst (Apply (\<lambda>h c. None) demo_apply) =
      [(''ko'', False, pre @ [''--base-import-paths'', ''alpine''] @ post)])
   \<and> (\<exists>pre. fst (Apply (\<lambda>h c. None) demo_apply) = [(''ko'', False, pre @ [''--preserve-import-paths''])])"
  using base_image_flag[of demo_build "\<lambda>h c. None" demo_apply]
  by (simp add: demo_build_def demo_apply_def)

section \<open>\<^verbatim>\<open>Run\<close> and its consumers\<close>

text \<open>
  \<^verbatim>\<open>Run\<close> can return success while neither consumer has seen the end of its stream: the
  main thread takes its two steps before either goroutine is scheduled.
\<close>

theorem Run_returns_before_consumers_counterexample:
  "main (exec (demo_run True) [MainStep, MainStep] init) = Returned None
   \<and> \<not> list_ex observed_eof (gos (exec (demo_run True) [MainStep, MainStep] init))
   \<and> \<not> list_ex finished (gos (exec (demo_run True) [MainStep, MainStep] init))
   \<and> main (exec (demo_run False) [MainStep, MainStep] init) = Returned None
   \<and> \<not> list_ex observed_eof (gos (exec (demo_run False) [MainStep, MainStep] init))
   \<and> \<not> list_ex finished (gos (exec (demo_run False) [MainStep, MainStep] init))"
  by (simp add: demo_run_def demo_creator_def demo_ok_cmd_def demo_cmd_def init_def main_step_def
      Run_launch_def Run_wait_def Buffer_def NewScanner_def)

text \<open>
  C2, amended. When the pipes and the start succeed and \<^verbatim>\<open>cmd.Wait()\<close> returns nil,
  \<^verbatim>\<open>Run\<close> returns success, and in every interleaving it has done so once the main thread
  has taken its two steps, whatever the consumers have done by then. When \<^verbatim>\<open>Run\<close> has
  returned success, the start and the wait succeeded and both consumers had been started
  before the wait; \<^verbatim>\<open>Run\<close> does not wait for them.
\<close>

theorem Run_success_without_join:
  "(stdoutPipe (i_creator iv (i_command iv) (i_args iv)) = Inr so \<and>
    stderrPipe (i_creator iv (i_command iv) (i_args iv)) = Inr se \<and>
    start (i_creator iv (i_command iv) (i_args iv)) = None \<and>
    wait (i_creator iv (i_command iv) (i_args iv)) = None
    \<longrightarrow> snd (Run (i_creator iv) ctxErr (i_command iv) (i_streamToLog iv) (i_args iv)) = None
        \<and> (2 \<le> count_list es MainStep \<longrightarrow> main (exec iv es init) = Returned None))
   \<and> (main (exec iv es init) = Returned None
    \<longrightarrow> wait (i_creator iv (i_command iv) (i_args iv)) = None
        \<and> start (i_creator iv (i_command iv) (i_args iv)) = None
        \<and> (\<exists>c1 c2. calls (exec iv es init) =
              [CommandContext (i_command iv) (i_args iv), SetStdin, StdoutPipe, StderrPipe, Start,
               Go c1, Go c2, CmdWait])
        \<and> length (gos (exec iv es init)) = 2)"
proof (intro conjI impI)
  assume a: "stdoutPipe (i_creator iv (i_command iv) (i_args iv)) = Inr so \<and>
    stderrPipe (i_creator iv (i_command iv) (i_args iv)) = Inr se \<and>
    start (i_creator iv (i_command iv) (i_args iv)) = None \<and>
    wait (i_creator iv (i_command iv) (i_args iv)) = None"
  then show "snd (Run (i_creator iv) ctxErr (i_command iv) (i_streamToLog iv) (i_args iv)) = None"
    by (simp add: Run_def Run_launch_def Run_wait_def)
  assume c: "2 \<le> count_list es MainStep"
  have l: "snd (launched iv) = None"
    using a by (simp add: launched_def Run_launch_def)
  from main_after[OF l, of es] a c show "main (exec iv es init) = Returned None" by simp
next
  assume r: "main (exec iv es init) = Returned None"
  have "main_inv iv init" by (simp add: main_inv_def init_def)
  then have "main_inv iv (exec iv es init)" by (rule main_inv_exec)
  with r have f: "snd (launched iv) = None" "wait (i_creator iv (i_command iv) (i_args iv)) = None"
      "calls (exec iv es init) = fst (launched iv) @ [CmdWait]" "length (gos (exec iv es init)) = 2"
    by (simp_all add: main_inv_def)
  from f(1) have "launched iv = (fst (launched iv), None)" by (metis prod.collapse)
  from Run_launch_None[OF this[unfolded launched_def]] f(3)
  show "wait (i_creator iv (i_command iv) (i_args iv)) = None"
    "start (i_creator iv (i_command iv) (i_args iv)) = None"
    "\<exists>c1 c2. calls (exec iv es init) =
              [CommandContext (i_command iv) (i_args iv), SetStdin, StdoutPipe, StderrPipe, Start,
               Go c1, Go c2, CmdWait]"
    "length (gos (exec iv es init)) = 2"
    using f(2,4) by (auto simp: launched_def)
qed

theorem Run_success_without_join_witness:
  "main (exec (demo_run True) [MainStep, Cancel context_Canceled, MainStep, GoStep 0] init) = Returned None
   \<and> snd (Run demo_creator None ''sh'' True [''-c'', ''echo ok'']) = None"
  using Run_success_without_join[of "demo_run True" demo_reader demo_reader None
          "[MainStep, Cancel context_Canceled, MainStep, GoStep 0]"]
  by (simp add: demo_run_def demo_creator_def demo_ok_cmd_def demo_cmd_def)

text \<open>
  C4. A consumer that logs, on a reader that never returns zero bytes without an error,
  whose context is not cancelled before it gets there: after the lines that fit, a line of
  1 MiB or more makes it log one record of error severity, \<^verbatim>\<open>failed to read stream\<close> with
  \<^verbatim>\<open>ErrTooLong\<close>, and return. A step of one goroutine changes neither the main thread, nor
  the calls made on the command, nor any other goroutine; and the result of \<^verbatim>\<open>Run\<close>
  does not depend on what the pipes deliver.
\<close>

theorem long_line_is_read_error:
  "(never_empty r \<and>
    concat (chunks r) = concat (map (\<lambda>l. l @ [newline]) ls) @ long @ rest \<and>
    (\<forall>l\<in>set ls. newline \<notin> set l \<and> length l < 1024 * 1024) \<and>
    newline \<notin> set long \<and> 1024 * 1024 \<le> length long \<and>
    (\<forall>j<length ls. ctx j = None)
    \<longrightarrow> fst (streamToSlog ctx r lv) =
          map (\<lambda>l. \<lparr>r_level = lv, r_msg = dropCR l, r_attrs = []\<rparr>) ls
          @ [\<lparr>r_level = LevelError, r_msg = ''failed to read stream'', r_attrs = [(''err'', ErrTooLong)]\<rparr>])
   \<and> main (go_step i s) = main s
   \<and> calls (go_step i s) = calls s
   \<and> length (gos (go_step i s)) = length (gos s)
   \<and> (j \<noteq> i \<longrightarrow> gos (go_step i s) ! j = gos s ! j)
   \<and> snd (Run (\<lambda>c a. cmd\<lparr>stdoutPipe := Inr r1, stderrPipe := Inr r2\<rparr>) ctxErr command streamToLog args) =
       snd (Run (\<lambda>c a. cmd\<lparr>stdoutPipe := Inr r3, stderrPipe := Inr r4\<rparr>) ctxErr command streamToLog args)"
proof (intro conjI impI)
  assume a: "never_empty r \<and>
    concat (chunks r) = concat (map (\<lambda>l. l @ [newline]) ls) @ long @ rest \<and>
    (\<forall>l\<in>set ls. newline \<notin> set l \<and> length l < 1024 * 1024) \<and>
    newline \<notin> set long \<and> 1024 * 1024 \<le> length long \<and>
    (\<forall>j<length ls. ctx j = None)"
  then have c: "\<forall>j<length ls. ctx (0 + j) = None" by simp
  from a have l: "\<forall>l\<in>set ls. newline \<notin> set l \<and> length l < 1024 * 1024" by blast
  from a have t: "newline \<notin> set long" "1024 * 1024 \<le> length long" by blast+
  have "fst (streamToSlog ctx r lv) =
          slog_spec ctx 0 lv (1024 * 1024) (final r) (concat (map (\<lambda>l. l @ [newline]) ls) @ long @ rest)"
    using a streamToSlog_spec[of r ctx lv] by simp
  also have "\<dots> = map (\<lambda>l. \<lparr>r_level = lv, r_msg = dropCR l, r_attrs = []\<rparr>) ls
      @ slog_spec ctx (0 + length ls) lv (1024 * 1024) (final r) (long @ rest)"
    by (rule slog_spec_lines[OF l c])
  also have "slog_spec ctx (0 + length ls) lv (1024 * 1024) (final r) (long @ rest) =
      [\<lparr>r_level = LevelError, r_msg = ''failed to read stream'', r_attrs = [(''err'', ErrTooLong)]\<rparr>]"
    by (rule slog_spec_too_long[OF t])
  finally show "fst (streamToSlog ctx r lv) =
          map (\<lambda>l. \<lparr>r_level = lv, r_msg = dropCR l, r_attrs = []\<rparr>) ls
          @ [\<lparr>r_level = LevelError, r_msg = ''failed to read stream'', r_attrs = [(''err'', ErrTooLong)]\<rparr>]" .
next
  show "snd (Run (\<lambda>c a. cmd\<lparr>stdoutPipe := Inr r1, stderrPipe := Inr r2\<rparr>) ctxErr command streamToLog args) =
       snd (Run (\<lambda>c a. cmd\<lparr>stdoutPipe := Inr r3, stderrPipe := Inr r4\<rparr>) ctxErr command streamToLog args)"
    by (simp add: Run_def Run_launch_def Run_wait_def split: option.splits)
qed (use go_step_local[of i s j] in simp_all)

theorem long_line_is_read_error_witness:
  "fst (streamToSlog never_cancelled long_reader LevelError) =
     [\<lparr>r_level = LevelError, r_msg = ''ok'', r_attrs = []\<rparr>,
      \<lparr>r_level = LevelError, r_msg = ''failed to read stream'', r_attrs = [(''err'', ErrTooLong)]\<rparr>]"
proof -
  have ne: "never_empty long_reader"
    using long_line_facts(2) by (auto simp: never_empty_def long_reader_def)
  have cc: "concat (chunks long_reader) =
      concat (map (\<lambda>l. l @ [newline]) [''ok'']) @ long_line @ (newline # ''never read'')"
    by (simp add: long_reader_def)
  have ls: "\<forall>l\<in>set [''ok'']. newline \<notin> set l \<and> length l < 1024 * 1024"
    by (simp add: newline_def)
  have cx: "\<forall>j<length [''ok'']. never_cancelled j = None" by (simp add: never_cancelled_def)
  show ?thesis
    using long_line_is_read_error[of long_reader "[''ok'']" long_line "newline # ''never read''"
        never_cancelled LevelError]
      ne cc ls cx long_line_facts
    by (simp add: dropCR_def carriage_return_def)
qed

text \<open>
  A line of exactly 1 MiB is not delivered: the scanner needs the line and its newline in
  the buffer. No line is delivered once the context is cancelled. And \<^verbatim>\<open>Run\<close> can have
  returned success when a consumer has not yet logged the line its stream holds.
\<close>

theorem lines_are_logged_counterexample:
  "length long_line \<le> 1024 * 1024
   \<and> fst (streamToSlog never_cancelled
        \<lparr>chunks = [long_line @ [newline]], final = io_EOF\<rparr> LevelInfo) =
      [\<lparr>r_level = LevelError, r_msg = ''failed to read stream'', r_attrs = [(''err'', ErrTooLong)]\<rparr>]
   \<and> fst (streamToSlog (cancelled_from 0 context_Canceled)
        \<lparr>chunks = [''ok'' @ [newline]], final = io_EOF\<rparr> LevelInfo) =
      [\<lparr>r_level = LevelWarn, r_msg = ''stream canceled'', r_attrs = [(''reason'', context_Canceled)]\<rparr>]
   \<and> consumers_of (calls (exec (demo_run True) [MainStep, MainStep] init)) =
      [StreamToSlog demo_reader LevelInfo, StreamToSlog demo_reader LevelError]
   \<and> lines_of (concat (chunks demo_reader)) = [''ok'']
   \<and> main (exec (demo_run True) [MainStep, MainStep] init) = Returned None
   \<and> slog (exec (demo_run True) [MainStep, MainStep] init) = []"
proof -
  have a: "length long_line \<le> 1024 * 1024" using long_line_facts(2) by simp
  let ?r = "\<lparr>chunks = [long_line @ [newline]], final = io_EOF\<rparr>"
  have ne: "never_empty ?r" by (simp add: never_empty_def)
  have "fst (streamToSlog never_cancelled ?r LevelInfo) =
      slog_spec never_cancelled 0 LevelInfo (1024 * 1024) io_EOF (long_line @ [newline])"
    using streamToSlog_spec[OF ne, of never_cancelled LevelInfo] by simp
  also have "\<dots> = [\<lparr>r_level = LevelError, r_msg = ''failed to read stream'', r_attrs = [(''err'', ErrTooLong)]\<rparr>]"
    using slog_spec_too_long[of long_line "1024 * 1024" never_cancelled 0 LevelInfo io_EOF "[newline]"]
      long_line_facts by simp
  finally have b: "fst (streamToSlog never_cancelled ?r LevelInfo) =
      [\<lparr>r_level = LevelError, r_msg = ''failed to read stream'', r_attrs = [(''err'', ErrTooLong)]\<rparr>]" .
  let ?q = "\<lparr>chunks = [''ok'' @ [newline]], final = io_EOF\<rparr>"
  have ne: "never_empty ?q" by (simp add: never_empty_def)
  have "fst (streamToSlog (cancelled_from 0 context_Canceled) ?q LevelInfo) =
      slog_spec (cancelled_from 0 context_Canceled) 0 LevelInfo (1024 * 1024) io_EOF (''ok'' @ newline # [])"
    using streamToSlog_spec[OF ne, of "cancelled_from 0 context_Canceled" LevelInfo] by simp
  also have "\<dots> = [\<lparr>r_level = LevelWarn, r_msg = ''stream canceled'', r_attrs = [(''reason'', context_Canceled)]\<rparr>]"
    by (rule slog_spec_cancelled) (simp_all add: newline_def cancelled_from_def)
  finally have c: "fst (streamToSlog (cancelled_from 0 context_Canceled) ?q LevelInfo) =
      [\<lparr>r_level = LevelWarn, r_msg = ''stream canceled'', r_attrs = [(''reason'', context_Canceled)]\<rparr>]" .
  have d: "consumers_of (calls (exec (demo_run True) [MainStep, MainStep] init)) =
      [StreamToSlog demo_reader LevelInfo, StreamToSlog demo_reader LevelError]"
    "main (exec (demo_run True) [MainStep, MainStep] init) = Returned None"
    "slog (exec (demo_run True) [MainStep, MainStep] init) = []"
    by (simp_all add: demo_run_def demo_creator_def demo_ok_cmd_def demo_cmd_def init_def main_step_def
      Run_launch_def Run_wait_def)
  have e: "lines_of (concat (chunks demo_reader)) = [''ok'']"
    using lines_of_demo by (simp add: demo_reader_def newline_def)
  show ?thesis using a b c d e by simp
qed

text \<open>
  C5, amended. With \<^verbatim>\<open>streamToLog\<close> true, when both pipes are obtained and the start
  succeeds, \<^verbatim>\<open>Run\<close> starts a logging consumer at level info for the standard output and
  one at level error for the standard error. A logging consumer that runs until its stream
  ends, whose context is never cancelled and whose reader never returns zero bytes without
  an error: if every line is shorter than 1 MiB, it logs exactly one record per line, at its
  level, whose message is the line without its newline and without a carriage return before
  the newline; after these it logs one record of error severity exactly when the stream
  ended with an error other than \<^verbatim>\<open>io.EOF\<close>.
\<close>

theorem lines_are_logged:
  "(never_empty r \<and> (\<forall>l\<in>set (lines_of (concat (chunks r))). length l < 1024 * 1024)
    \<longrightarrow> fst (streamToSlog never_cancelled r lv) =
          map (\<lambda>l. \<lparr>r_level = lv, r_msg = dropCR l, r_attrs = []\<rparr>) (lines_of (concat (chunks r)))
          @ (if final r = io_EOF then []
             else [\<lparr>r_level = LevelError, r_msg = ''failed to read stream'',
                    r_attrs = [(''err'', final r)]\<rparr>]))
   \<and> (stdoutPipe (cr command args) = Inr so \<and> stderrPipe (cr command args) = Inr se \<and>
       start (cr command args) = None
    \<longrightarrow> consumers_of (fst (Run cr ctxErr command True args)) =
          [StreamToSlog so LevelInfo, StreamToSlog se LevelError])"
proof (intro conjI impI)
  assume a: "never_empty r \<and> (\<forall>l\<in>set (lines_of (concat (chunks r))). length l < 1024 * 1024)"
  then have "fst (streamToSlog never_cancelled r lv) =
      slog_spec never_cancelled 0 lv (1024 * 1024) (final r) (concat (chunks r))"
    using streamToSlog_spec[of r never_cancelled lv] by simp
  also have "\<dots> = map (\<lambda>l. \<lparr>r_level = lv, r_msg = dropCR l, r_attrs = []\<rparr>) (lines_of (concat (chunks r)))
          @ (if final r = io_EOF then []
             else [\<lparr>r_level = LevelError, r_msg = ''failed to read stream'',
                    r_attrs = [(''err'', final r)]\<rparr>])"
    using a by (intro slog_spec_lines_of) simp_all
  finally show "fst (streamToSlog never_cancelled r lv) =
      map (\<lambda>l. \<lparr>r_level = lv, r_msg = dropCR l, r_attrs = []\<rparr>) (lines_of (concat (chunks r)))
          @ (if final r = io_EOF then []
             else [\<lparr>r_level = LevelError, r_msg = ''failed to read stream'',
                    r_attrs = [(''err'', final r)]\<rparr>])" .
next
  assume "stdoutPipe (cr command args) = Inr so \<and> stderrPipe (cr command args) = Inr se \<and>
       start (cr command args) = None"
  then show "consumers_of (fst (Run cr ctxErr command True args)) =
          [StreamToSlog so LevelInfo, StreamToSlog se LevelError]"
    by (simp add: Run_def Run_launch_def Run_wait_def split: option.splits)
qed

theorem lines_are_logged_witness:
  "fst (streamToSlog never_cancelled demo_reader LevelError) =
     [\<lparr>r_level = LevelError, r_msg = ''ok'', r_attrs = []\<rparr>]
   \<and> fst (streamToSlog never_cancelled closed_reader LevelInfo) =
     [\<lparr>r_level = LevelInfo, r_msg = ''ok'', r_attrs = []\<rparr>,
      \<lparr>r_level = LevelInfo, r_msg = ''cut'', r_attrs = []\<rparr>,
      \<lparr>r_level = LevelError, r_msg = ''failed to read stream'',
        r_attrs = [(''err'', External ''file already closed'')]\<rparr>]
   \<and> consumers_of (fst (Run demo_creator None ''sh'' True [''-c'', ''echo ok 1>&2''])) =
     [StreamToSlog demo_reader LevelInfo, StreamToSlog demo_reader LevelError]"
proof -
  have c: "concat (chunks demo_reader) = ''ok'' @ [newline]"
    by (simp add: demo_reader_def newline_def)
  have h: "never_empty demo_reader \<and>
    (\<forall>l\<in>set (lines_of (concat (chunks demo_reader))). length l < 1024 * 1024)"
    unfolding c lines_of_demo by (simp add: never_empty_def demo_reader_def)
  have c': "concat (chunks closed_reader) = ''ok'' @ [newline] @ ''cut''"
    by (simp add: closed_reader_def)
  have h': "never_empty closed_reader \<and>
    (\<forall>l\<in>set (lines_of (concat (chunks closed_reader))). length l < 1024 * 1024)"
    unfolding c' lines_of_closed by (simp add: never_empty_def closed_reader_def)
  have f: "final demo_reader = io_EOF" "final closed_reader \<noteq> io_EOF"
    "final closed_reader = External ''file already closed''"
    by (simp_all add: demo_reader_def closed_reader_def io_EOF_def)
  show ?thesis
    using lines_are_logged[of demo_reader LevelError demo_creator "''sh''" "[''-c'', ''echo ok 1>&2'']"
        demo_reader demo_reader None] h
      lines_are_logged[of closed_reader LevelInfo demo_creator "''sh''" "[''-c'', ''echo ok 1>&2'']"
        demo_reader demo_reader None] h' f
    unfolding c c' lines_of_demo lines_of_closed
    by (simp add: demo_creator_def demo_ok_cmd_def demo_cmd_def dropCR_def carriage_return_def)
qed

text \<open>
  With \<^verbatim>\<open>streamToLog\<close> false the consumers that \<^verbatim>\<open>Run\<close> starts are \<^verbatim>\<open>io.Copy\<close>
  calls, which do not look at the context: under a context cancelled from the beginning they
  copy all the data and log nothing, run on their own as well as interleaved with \<^verbatim>\<open>Run\<close>.
\<close>

theorem cancellation_counterexample:
  "consumers_of (fst (Run demo_creator (Some context_Canceled) ''sh'' False [''-c'', ''echo ok''])) =
     [IoCopy os_Stdout demo_reader, IoCopy os_Stderr demo_reader]
   \<and> map (run_consumer (cancelled_from 0 context_Canceled))
        (consumers_of (fst (Run demo_creator (Some context_Canceled) ''sh'' False [''-c'', ''echo ok'']))) =
     [([], ''ok'' @ [newline]), ([], ''ok'' @ [newline])]
   \<and> ctx_err (exec (demo_run False)
        [Cancel context_Canceled, MainStep, GoStep 0, GoStep 0, GoStep 0] init) = Some context_Canceled
   \<and> slog (exec (demo_run False)
        [Cancel context_Canceled, MainStep, GoStep 0, GoStep 0, GoStep 0] init) = []
   \<and> written (exec (demo_run False)
        [Cancel context_Canceled, MainStep, GoStep 0, GoStep 0, GoStep 0] init) os_Stdout = ''ok'' @ [newline]"
  by (simp add: run_consumer_def copy_loop.simps copy_iteration_def Read_def demo_reader_def newline_def
      Run_def Run_launch_def Run_wait_def demo_run_def demo_creator_def demo_ok_cmd_def demo_cmd_def
      init_def main_step_def go_step_def)

text \<open>
  C6, amended. When both pipes are obtained and the start succeeds, \<^verbatim>\<open>Run\<close> starts two
  logging consumers if \<^verbatim>\<open>streamToLog\<close> is true and two \<^verbatim>\<open>io.Copy\<close> consumers if it is
  false. A logging consumer, on a reader that never returns zero bytes without an error,
  checks the context once for every line it has scanned, before it logs the line: after
  the lines, each shorter than 1 MiB, whose check found the context not cancelled, at the
  first line shorter than 1 MiB whose check finds it cancelled it logs the warning
  \<^verbatim>\<open>stream canceled\<close> with the context's error and returns, without logging that line. A
  consumer that copies never looks at the context: it copies all that its reader delivers
  and logs nothing. No step of a consumer makes a call on the command.
\<close>

theorem cancellation_is_checked_per_line:
  "(never_empty r \<and>
    concat (chunks r) = concat (map (\<lambda>l. l @ [newline]) ls) @ l' @ newline # rest \<and>
    (\<forall>l\<in>set ls. newline \<notin> set l \<and> length l < 1024 * 1024) \<and>
    newline \<notin> set l' \<and> length l' < 1024 * 1024 \<and>
    (\<forall>j<length ls. ctx j = None) \<and> ctx (length ls) = Some e
    \<longrightarrow> run_consumer ctx (StreamToSlog r lv) =
          (map (\<lambda>l. \<lparr>r_level = lv, r_msg = dropCR l, r_attrs = []\<rparr>) ls
           @ [\<lparr>r_level = LevelWarn, r_msg = ''stream canceled'', r_attrs = [(''reason'', e)]\<rparr>], []))
   \<and> run_consumer ctx (IoCopy dst r) = ([], concat (chunks r))
   \<and> calls (go_step i s) = calls s
   \<and> (stdoutPipe (cr command args) = Inr so \<and> stderrPipe (cr command args) = Inr se \<and>
       start (cr command args) = None
      \<longrightarrow> consumers_of (fst (Run cr ctxErr command True args)) =
            [StreamToSlog so LevelInfo, StreamToSlog se LevelError]
          \<and> consumers_of (fst (Run cr ctxErr command False args)) =
            [IoCopy os_Stdout so, IoCopy os_Stderr se]
          \<and> map (run_consumer ctx) (consumers_of (fst (Run cr ctxErr command False args))) =
            [([], concat (chunks so)), ([], concat (chunks se))])"
proof (intro conjI impI)
  assume a: "never_empty r \<and>
    concat (chunks r) = concat (map (\<lambda>l. l @ [newline]) ls) @ l' @ newline # rest \<and>
    (\<forall>l\<in>set ls. newline \<notin> set l \<and> length l < 1024 * 1024) \<and>
    newline \<notin> set l' \<and> length l' < 1024 * 1024 \<and>
    (\<forall>j<length ls. ctx j = None) \<and> ctx (length ls) = Some e"
  then have c: "\<forall>j<length ls. ctx (0 + j) = None" by simp
  from a have l: "\<forall>l\<in>set ls. newline \<notin> set l \<and> length l < 1024 * 1024" by blast
  from a have t: "newline \<notin> set l'" "length l' < 1024 * 1024" "ctx (0 + length ls) = Some e" by simp_all
  have "fst (streamToSlog ctx r lv) =
          slog_spec ctx 0 lv (1024 * 1024) (final r)
            (concat (map (\<lambda>l. l @ [newline]) ls) @ l' @ newline # rest)"
    using a streamToSlog_spec[of r ctx lv] by simp
  also have "\<dots> = map (\<lambda>l. \<lparr>r_level = lv, r_msg = dropCR l, r_attrs = []\<rparr>) ls
      @ slog_spec ctx (0 + length ls) lv (1024 * 1024) (final r) (l' @ newline # rest)"
    by (rule slog_spec_lines[OF l c])
  also have "slog_spec ctx (0 + length ls) lv (1024 * 1024) (final r) (l' @ newline # rest) =
      [\<lparr>r_level = LevelWarn, r_msg = ''stream canceled'', r_attrs = [(''reason'', e)]\<rparr>]"
    using slog_spec_cancelled[of l' "1024 * 1024" ctx "0 + length ls" e lv "final r" rest] t by simp
  finally show "run_consumer ctx (StreamToSlog r lv) =
          (map (\<lambda>l. \<lparr>r_level = lv, r_msg = dropCR l, r_attrs = []\<rparr>) ls
           @ [\<lparr>r_level = LevelWarn, r_msg = ''stream canceled'', r_attrs = [(''reason'', e)]\<rparr>], [])"
    by (simp add: run_consumer_def)
next
  show "run_consumer ctx (IoCopy dst r) = ([], concat (chunks r))"
    by (simp add: run_consumer_def copy_loop_all)
next
  show "calls (go_step i s) = calls s" using go_step_local[of i s] by simp
next
  assume p: "stdoutPipe (cr command args) = Inr so \<and> stderrPipe (cr command args) = Inr se \<and>
       start (cr command args) = None"
  then show "consumers_of (fst (Run cr ctxErr command True args)) =
            [StreamToSlog so LevelInfo, StreamToSlog se LevelError]"
    by (simp add: Run_def Run_launch_def Run_wait_def split: option.splits)
  from p show f: "consumers_of (fst (Run cr ctxErr command False args)) =
            [IoCopy os_Stdout so, IoCopy os_Stderr se]"
    by (simp add: Run_def Run_launch_def Run_wait_def split: option.splits)
  show "map (run_consumer ctx) (consumers_of (fst (Run cr ctxErr command False args))) =
            [([], concat (chunks so)), ([], concat (chunks se))]"
    unfolding f by (simp add: run_consumer_def copy_loop_all)
qed

theorem cancellation_is_checked_per_line_witness:
  "run_consumer (cancelled_from 1 context_Canceled) (StreamToSlog two_lines LevelInfo) =
     ([\<lparr>r_level = LevelInfo, r_msg = ''one'', r_attrs = []\<rparr>,
       \<lparr>r_level = LevelWarn, r_msg = ''stream canceled'', r_attrs = [(''reason'', context_Canceled)]\<rparr>], [])
   \<and> consumers_of (fst (Run demo_creator (Some context_Canceled) ''sh'' True [''-c'', ''echo ok''])) =
     [StreamToSlog demo_reader LevelInfo, StreamToSlog demo_reader LevelError]
   \<and> consumers_of (fst (Run demo_creator (Some context_Canceled) ''sh'' False [''-c'', ''echo ok''])) =
     [IoCopy os_Stdout demo_reader, IoCopy os_Stderr demo_reader]"
proof -
  have h: "never_empty two_lines \<and>
    concat (chunks two_lines) = concat (map (\<lambda>l. l @ [newline]) [''one'']) @ ''two'' @ newline # [] \<and>
    (\<forall>l\<in>set [''one'']. newline \<notin> set l \<and> length l < 1024 * 1024) \<and>
    newline \<notin> set ''two'' \<and> length ''two'' < 1024 * 1024 \<and>
    (\<forall>j<length [''one'']. cancelled_from 1 context_Canceled j = None) \<and>
    cancelled_from 1 context_Canceled (length [''one'']) = Some context_Canceled"
    by (simp add: never_empty_def two_lines_def newline_def cancelled_from_def)
  have p: "stdoutPipe (demo_creator ''sh'' [''-c'', ''echo ok'']) = Inr demo_reader \<and>
      stderrPipe (demo_creator ''sh'' [''-c'', ''echo ok'']) = Inr demo_reader \<and>
      start (demo_creator ''sh'' [''-c'', ''echo ok'']) = None"
    by (simp add: demo_creator_def demo_ok_cmd_def demo_cmd_def)
  show ?thesis
    using cancellation_is_checked_per_line[where r = two_lines and ls = "[''one'']" and l' = "''two''"
        and rest = "[]" and ctx = "cancelled_from 1 context_Canceled" and e = context_Canceled
        and lv = LevelInfo and cr = demo_creator and command = "''sh''" and args = "[''-c'', ''echo ok'']"
        and so = demo_reader and se = demo_reader and ctxErr = "Some context_Canceled"] h p
    by (simp add: dropCR_def carriage_return_def)
qed

end
